theory Spec2Isabelle
  imports Main "HOL-Library.Sublist" "HOL-Library.Multiset"
begin

section \<open>Strings as the handlers use them\<close>

text \<open>
  A JavaScript string is modelled as a \<^typ>\<open>string\<close>: a list of 8-bit characters, read as
  the code units \<open>0x00 .. 0xFF\<close> (Latin-1). On that range \<open>toLowerCase\<close> maps \<open>A-Z\<close>,
  \<open>0xC0-0xD6\<close> and \<open>0xD8-0xDE\<close> to the character 32 positions later and leaves
  every other character alone.
\<close>

definition toLowerCase_char :: "char \<Rightarrow> char" where
  "toLowerCase_char c =
     (let n = (of_char c :: nat)
      in if (65 \<le> n \<and> n \<le> 90) \<or> (192 \<le> n \<and> n \<le> 222 \<and> n \<noteq> 215)
         then char_of (n + 32) else c)"

definition toLowerCase :: "string \<Rightarrow> string" where
  "toLowerCase s = map toLowerCase_char s"

text \<open>The character class \<open>[a-z0-9]\<close> of the two regular expressions.\<close>

definition is_alnum :: "char \<Rightarrow> bool" where
  "is_alnum c =
     (let n = (of_char c :: nat) in (97 \<le> n \<and> n \<le> 122) \<or> (48 \<le> n \<and> n \<le> 57))"

text \<open>\<open>s.replace(/[^a-z0-9]+/g, '-')\<close>: every maximal run of characters outside the
  class becomes one dash.\<close>

function replace_runs :: "string \<Rightarrow> string" where
  "replace_runs [] = []"
| "replace_runs (c # cs) =
     (if is_alnum c then c # replace_runs cs
      else CHR ''-'' # replace_runs (dropWhile (\<lambda>d. \<not> is_alnum d) cs))"
  by pat_completeness auto
termination
  by (relation "measure length") (auto simp: length_dropWhile_le less_Suc_eq_le)

text \<open>\<open>s.replace(/^-+|-+$/g, '')\<close>: the dashes at both ends go.\<close>

definition strip_dashes :: "string \<Rightarrow> string" where
  "strip_dashes s =
     rev (dropWhile (\<lambda>c. c = CHR ''-'') (rev (dropWhile (\<lambda>c. c = CHR ''-'') s)))"

text \<open>\<open>const baseFilename = title.toLowerCase().replace(...).replace(...)\<close>\<close>

definition baseFilename :: "string \<Rightarrow> string" where
  "baseFilename title = strip_dashes (replace_runs (toLowerCase title))"

text \<open>A non-negative integer inside a template literal: its decimal digits.\<close>

definition digit_char :: "nat \<Rightarrow> char" where
  "digit_char d = ''0123456789'' ! d"

function showNat :: "nat \<Rightarrow> string" where
  "showNat n = (if n < 10 then [digit_char n] else showNat (n div 10) @ [digit_char (n mod 10)])"
  by pat_completeness auto
termination
  by (relation "measure id") auto

declare showNat.simps [simp del]

text \<open>\<open>s.startsWith(p)\<close> is \<^const>\<open>prefix\<close>; \<open>s.includes(t)\<close> looks for \<open>t\<close> at every
  position of \<open>s\<close>.\<close>

fun includes_str :: "string \<Rightarrow> string \<Rightarrow> bool" where
  "includes_str [] t = (t = [])"
| "includes_str (c # cs) t = (prefix t (c # cs) \<or> includes_str cs t)"

text \<open>\<open>s.split(',')\<close>: the segments between the commas; a string without a comma,
  the empty one too, is its own single segment.\<close>

fun split_comma :: "string \<Rightarrow> string list" where
  "split_comma [] = [[]]"
| "split_comma (c # cs) =
     (if c = CHR '','' then [] # split_comma cs
      else (case split_comma cs of
              [] \<Rightarrow> [[c]]
            | seg # segs \<Rightarrow> (c # seg) # segs))"

text \<open>\<open>s.trim()\<close> removes white space at both ends; among the 8-bit characters these
  are tab, line feed, vertical tab, form feed, carriage return, space and the
  no-break space.\<close>

definition is_space :: "char \<Rightarrow> bool" where
  "is_space c = (of_char c \<in> {9, 10, 11, 12, 13, 32, 160 :: nat})"

definition trim :: "string \<Rightarrow> string" where
  "trim s = rev (dropWhile is_space (rev (dropWhile is_space s)))"

section \<open>Prompt records and the index\<close>

datatype provider = openai | anthropic | google | xai | meta | mistral

text \<open>
  \<open>interface PromptMetadata\<close>. The field \<open>id\<close> is called \<open>id_str\<close> here (\<open>id\<close> is the
  identity function of HOL). \<open>createdAt\<close> and \<open>updatedAt\<close> hold what
  \<open>new Date().toISOString()\<close> wrote; they are represented by the instant itself, in
  milliseconds since the epoch, which is what \<open>new Date(s).getTime()\<close> reads back.
\<close>

record prompt_metadata =
  id_str :: string
  title :: string
  description :: string
  tags :: "string list"
  provider :: provider
  model :: string
  filename :: string
  createdAt :: nat
  updatedAt :: nat

text \<open>\<open>interface Prompt\<close>: the metadata and, when its file could be read, the body.\<close>

record prompt =
  meta :: prompt_metadata
  content :: "string option"

text \<open>The fields of the create and edit forms (component state).\<close>

record form =
  f_title :: string
  f_description :: string
  f_prompt :: string
  f_tags :: string
  f_provider :: provider
  f_model :: string

subsection \<open>Deriving the filename\<close>

text \<open>
  \<open>const suffix = existingPrompts.length > 0 ? existingPrompts.length : '';\<close>
  \<open>const filename = `${baseFilename}-${Date.now()}${suffix}.md`;\<close>
\<close>

definition suffix_of :: "nat \<Rightarrow> string" where
  "suffix_of n = (if n > 0 then showNat n else [])"

definition make_filename :: "string \<Rightarrow> nat \<Rightarrow> nat \<Rightarrow> string" where
  "make_filename base now n = base @ ''-'' @ showNat now @ suffix_of n @ ''.md''"

text \<open>Create: \<open>metadata.prompts.filter(p => p.filename.startsWith(`${baseFilename}-`))\<close>\<close>

definition existingPrompts :: "string \<Rightarrow> prompt_metadata list \<Rightarrow> prompt_metadata list" where
  "existingPrompts base ps = filter (\<lambda>p. prefix (base @ ''-'') (filename p)) ps"

definition create_filename :: "string \<Rightarrow> prompt_metadata list \<Rightarrow> nat \<Rightarrow> string" where
  "create_filename ttl ps now =
     (let base = baseFilename ttl
      in make_filename base now (length (existingPrompts base ps)))"

text \<open>
  The record Create builds. The clock is read four times, for the filename, the id
  and the two timestamps; the four readings are the arguments \<open>t_file\<close>, \<open>t_id\<close>,
  \<open>t_created\<close> and \<open>t_updated\<close>.
\<close>

record clock4 =
  t_file :: nat
  t_id :: nat
  t_created :: nat
  t_updated :: nat

definition newPrompt :: "form \<Rightarrow> clock4 \<Rightarrow> prompt_metadata list \<Rightarrow> prompt_metadata" where
  "newPrompt f clk ps =
     \<lparr> id_str = showNat (t_id clk),
       title = f_title f,
       description = f_description f,
       tags = map trim (split_comma (f_tags f)),
       provider = f_provider f,
       model = f_model f,
       filename = create_filename (f_title f) ps (t_file clk),
       createdAt = t_created clk,
       updatedAt = t_updated clk \<rparr>"

section \<open>The remote store as the handlers see it\<close>

text \<open>
  Every handler talks to the store through \<open>await fetch(url, options)\<close>. A request is
  what the handler sends: the HTTP verb, the file addressed, and the commit message,
  the (base64) content and the revision token of the JSON body, each absent when the
  handler does not send it.
\<close>

datatype verb = GET | PUT | DELETE

datatype path = MetadataJson | PromptFile string

datatype payload = IndexDoc "prompt_metadata list" | Body string

record request =
  verb :: verb
  path :: path
  message :: "string option"
  payload :: "payload option"
  sha :: "string option"

text \<open>
  A reply is read through the accessors the handlers apply to it. \<open>b_content\<close> is
  \<open>atob(data.content)\<close>, \<open>None\<close> when that throws (no \<open>content\<close>, as in the store's
  \<open>{"message": "Not Found"}\<close>); \<open>b_metadata\<close> is \<open>JSON.parse\<close> of that text, \<open>None\<close>
  when it throws, \<open>Some None\<close> for a document without \<open>prompts\<close>; \<open>b_sha\<close> is
  \<open>data.sha\<close>. \<open>fetch\<close> either rejects (\<open>NetworkError\<close>) or resolves with a status and
  a body, \<open>None\<close> when \<open>response.json()\<close> rejects.
\<close>

record body =
  b_content :: "string option"
  b_metadata :: "prompt_metadata list option option"
  b_sha :: "string option"

datatype response = NetworkError | Http nat "body option"

definition ok :: "nat \<Rightarrow> bool" where
  "ok st = (200 \<le> st \<and> st \<le> 299)"

text \<open>
  A handler is a computation over the log of the requests sent so far; it ends with
  a value or with a thrown exception (\<open>None\<close>). The store is the function \<open>net\<close>: its
  reply to the \<open>k\<close>-th request of the run.
\<close>

type_synonym 'a io = "request list \<Rightarrow> 'a option \<times> request list"

definition ret :: "'a \<Rightarrow> 'a io" where
  "ret x = (\<lambda>log. (Some x, log))"

definition throw :: "'a io" where
  "throw = (\<lambda>log. (None, log))"

definition andThen :: "'a io \<Rightarrow> ('a \<Rightarrow> 'b io) \<Rightarrow> 'b io" where
  "andThen m k = (\<lambda>log. case m log of (None, log') \<Rightarrow> (None, log') | (Some x, log') \<Rightarrow> k x log')"

definition fetch :: "(nat \<Rightarrow> response) \<Rightarrow> request \<Rightarrow> (nat \<times> body option) io" where
  "fetch net req =
     (\<lambda>log. (case net (length log) of NetworkError \<Rightarrow> None | Http st b \<Rightarrow> Some (st, b),
            log @ [req]))"

text \<open>\<open>await response.json()\<close>\<close>

definition json :: "body option \<Rightarrow> body io" where
  "json b = (case b of None \<Rightarrow> throw | Some d \<Rightarrow> ret d)"

text \<open>\<open>JSON.parse(atob(data.content))\<close>\<close>

definition parse_index :: "body \<Rightarrow> prompt_metadata list option io" where
  "parse_index d =
     (case b_content d of
        None \<Rightarrow> throw
      | Some txt \<Rightarrow> (case b_metadata d of None \<Rightarrow> throw | Some md \<Rightarrow> ret md))"

text \<open>\<open>metadata.prompts.filter(...)\<close>, \<open>metadata.prompts.findIndex(...)\<close>: a call on
  \<open>undefined\<close> throws.\<close>

definition prompts_of :: "prompt_metadata list option \<Rightarrow> prompt_metadata list io" where
  "prompts_of md = (case md of None \<Rightarrow> throw | Some ps \<Rightarrow> ret ps)"

definition get_req :: "path \<Rightarrow> request" where
  "get_req p = \<lparr> verb = GET, path = p, message = None, payload = None, sha = None \<rparr>"

text \<open>
  How a handler ends: \<open>Done\<close> when the \<open>try\<close> block ran through (the modal closes and
  the list is fetched again), \<open>Error msg\<close> when the \<open>catch\<close> block set the message.
\<close>

datatype outcome = Done | Error string

definition run :: "string \<Rightarrow> unit io \<Rightarrow> outcome \<times> request list" where
  "run msg m = (case m [] of (None, log) \<Rightarrow> (Error msg, log) | (Some u, log) \<Rightarrow> (Done, log))"

section \<open>Create: \<open>CreatePromptModal.handleSubmit\<close>\<close>

text \<open>\<open>...(sha ? { sha } : {})\<close>: the token is sent when it is a non-empty string.\<close>

definition truthy :: "string option \<Rightarrow> string option" where
  "truthy s = (case s of None \<Rightarrow> None | Some v \<Rightarrow> if v = [] then None else Some v)"

text \<open>
  The index is sent as \<open>btoa(JSON.stringify(metadata, null, 2))\<close>, by Create, Update
  and Delete alike. \<open>btoa\<close> throws on a character above U+00FF. The strings of this
  model hold none, so that exit of the \<open>try\<close> block, taken before the write of the
  index is sent and ending in the error message, is not among the runs of the model.
  The theorems on Update and Delete below say which requests a run can have sent,
  and what a run that ends in \<open>Done\<close> has sent; they hold for such a run as well.
\<close>

definition handleSubmit_create ::
  "(nat \<Rightarrow> response) \<Rightarrow> clock4 \<Rightarrow> form \<Rightarrow> outcome \<times> request list" where
  "handleSubmit_create net clk f =
     run ''Failed to create prompt. Please try again.''
      (andThen (fetch net (get_req MetadataJson)) (\<lambda>(st, b).
       andThen (if st \<noteq> 404
                then andThen (json b) (\<lambda>d.
                     andThen (parse_index d) (\<lambda>md. ret (md, b_sha d)))
                else ret (Some [], Some [])) (\<lambda>(md, sha0).
       andThen (prompts_of md) (\<lambda>ps.
       let p = newPrompt f clk ps in
       andThen (fetch net
                  \<lparr> verb = PUT, path = MetadataJson,
                    message = Some (''Add prompt: '' @ f_title f),
                    payload = Some (IndexDoc (ps @ [p])),
                    sha = truthy sha0 \<rparr>) (\<lambda>r1.
       andThen (fetch net
                  \<lparr> verb = PUT, path = PromptFile (filename p),
                    message = Some (''Add prompt: '' @ f_title f),
                    payload = Some (Body (f_prompt f)),
                    sha = None \<rparr>) (\<lambda>r2.
       ret ()))))))"

section \<open>Update and Delete: \<open>ViewEditPromptModal\<close>\<close>

text \<open>\<open>xs.findIndex(pred)\<close>: the first position that satisfies \<open>pred\<close>; \<open>None\<close> is
  JavaScript's \<open>-1\<close>.\<close>

fun findIndex :: "('a \<Rightarrow> bool) \<Rightarrow> 'a list \<Rightarrow> nat option" where
  "findIndex P [] = None"
| "findIndex P (x # xs) = (if P x then Some 0 else map_option Suc (findIndex P xs))"

text \<open>Update scans the other records only:
  \<open>p.id !== prompt.id && p.filename.startsWith(`${baseFilename}-`)\<close>\<close>

definition existingPrompts_update ::
  "string \<Rightarrow> string \<Rightarrow> prompt_metadata list \<Rightarrow> prompt_metadata list" where
  "existingPrompts_update pid base ps =
     filter (\<lambda>p. id_str p \<noteq> pid \<and> prefix (base @ ''-'') (filename p)) ps"

text \<open>The object literal assigned to \<open>metadata.prompts[promptIndex]\<close>: the stored
  record spread, then the fields the form supplies.\<close>

definition updated_record :: "prompt_metadata \<Rightarrow> form \<Rightarrow> string \<Rightarrow> nat \<Rightarrow> prompt_metadata" where
  "updated_record old f fn now =
     old \<lparr> title := f_title f,
           description := f_description f,
           tags := map trim (split_comma (f_tags f)),
           provider := f_provider f,
           model := f_model f,
           filename := fn,
           updatedAt := now \<rparr>"

text \<open>
  \<open>prompt\<close> is the record the modal was opened with, \<open>f\<close> the form (\<open>f_prompt\<close> is the
  \<open>content\<close> state), \<open>t_name\<close> the reading of \<open>Date.now()\<close> in the rename branch and
  \<open>t_upd\<close> the one of \<open>new Date()\<close>. The variable \<open>filename\<close> starts as
  \<open>prompt.filename\<close> and is assigned a fresh name when the title has changed.
\<close>

definition update_filename :: "prompt \<Rightarrow> form \<Rightarrow> nat \<Rightarrow> prompt_metadata list \<Rightarrow> string" where
  "update_filename prompt f t_name ps =
     (if f_title f \<noteq> title (meta prompt)
      then (let base = baseFilename (f_title f);
                existing = existingPrompts_update (id_str (meta prompt)) base ps
            in make_filename base t_name (length existing))
      else filename (meta prompt))"

definition handleSubmit_update ::
  "(nat \<Rightarrow> response) \<Rightarrow> nat \<Rightarrow> nat \<Rightarrow> prompt \<Rightarrow> form \<Rightarrow> outcome \<times> request list" where
  "handleSubmit_update net t_name t_upd prompt f =
     run ''Failed to update prompt. Please try again.''
      (andThen (fetch net (get_req MetadataJson)) (\<lambda>(st, b).
       andThen (json b) (\<lambda>d.
       andThen (parse_index d) (\<lambda>md.
       andThen (prompts_of md) (\<lambda>ps.
       case findIndex (\<lambda>p. id_str p = id_str (meta prompt)) ps of
         None \<Rightarrow> ret ()
       | Some i \<Rightarrow>
           (let fn = update_filename prompt f t_name ps in
           andThen
             (if f_title f \<noteq> title (meta prompt)
              then andThen (fetch net (get_req (PromptFile (filename (meta prompt))))) (\<lambda>(st1, ob).
                   andThen (json ob) (\<lambda>od.
                   andThen (fetch net
                              \<lparr> verb = DELETE, path = PromptFile (filename (meta prompt)),
                                message = Some (''Delete old prompt file: '' @ title (meta prompt)),
                                payload = None,
                                sha = b_sha od \<rparr>) (\<lambda>r.
                   ret ())))
              else ret ()) (\<lambda>u.
           andThen (fetch net
                      \<lparr> verb = PUT, path = MetadataJson,
                        message = Some (''Update prompt: '' @ f_title f),
                        payload = Some (IndexDoc (ps[i := updated_record (ps ! i) f fn t_upd])),
                        sha = b_sha d \<rparr>) (\<lambda>r1.
           andThen
             (if fn = filename (meta prompt)
              then andThen (fetch net (get_req (PromptFile fn))) (\<lambda>(st2, cb).
                   andThen (json cb) (\<lambda>cd. ret (b_sha cd)))
              else ret None) (\<lambda>tok.
           andThen (fetch net
                      \<lparr> verb = PUT, path = PromptFile fn,
                        message = Some (''Update prompt: '' @ f_title f),
                        payload = Some (Body (f_prompt f)),
                        sha = tok \<rparr>) (\<lambda>r2.
           ret ()))))))))))"

definition handleDelete :: "(nat \<Rightarrow> response) \<Rightarrow> prompt \<Rightarrow> outcome \<times> request list" where
  "handleDelete net prompt =
     run ''Failed to delete prompt. Please try again.''
      (andThen (fetch net (get_req MetadataJson)) (\<lambda>(st, b).
       andThen (json b) (\<lambda>d.
       andThen (parse_index d) (\<lambda>md.
       andThen (prompts_of md) (\<lambda>ps.
       andThen (fetch net
                  \<lparr> verb = PUT, path = MetadataJson,
                    message = Some (''Delete prompt: '' @ title (meta prompt)),
                    payload = Some (IndexDoc (filter (\<lambda>p. id_str p \<noteq> id_str (meta prompt)) ps)),
                    sha = b_sha d \<rparr>) (\<lambda>r1.
       andThen (fetch net (get_req (PromptFile (filename (meta prompt))))) (\<lambda>(st1, pb).
       andThen (json pb) (\<lambda>pd.
       andThen (fetch net
                  \<lparr> verb = DELETE, path = PromptFile (filename (meta prompt)),
                    message = Some (''Delete prompt: '' @ title (meta prompt)),
                    payload = None,
                    sha = b_sha pd \<rparr>) (\<lambda>r2.
       ret ())))))))))"

section \<open>Fetch-all and the collection view: \<open>PromptsList\<close>\<close>

text \<open>
  The body of the \<open>async\<close> function mapped over the index: the record with its
  content, or, from the inner \<open>catch\<close>, the record as it is.
\<close>

definition fetch_content :: "response \<Rightarrow> prompt_metadata \<Rightarrow> prompt" where
  "fetch_content r p =
     (case r of
        NetworkError \<Rightarrow> \<lparr> meta = p, content = None \<rparr>
      | Http st b \<Rightarrow>
          if \<not> ok st then \<lparr> meta = p, content = None \<rparr>
          else (case b of
                  None \<Rightarrow> \<lparr> meta = p, content = None \<rparr>
                | Some d \<Rightarrow>
                    (case b_content d of
                       None \<Rightarrow> \<lparr> meta = p, content = None \<rparr>
                     | Some txt \<Rightarrow> \<lparr> meta = p, content = Some txt \<rparr>)))"

text \<open>
  \<open>fetchPrompts\<close>: \<open>Inr ps\<close> is \<open>setPrompts(ps)\<close>, \<open>Inl msg\<close> is \<open>setError(msg)\<close> from the
  outer \<open>catch\<close>. \<open>Promise.all\<close> over \<open>map\<close> sends the request for the \<open>i\<close>-th record
  as request \<open>i + 1\<close> of the run, all of them before any reply is looked at.
\<close>

definition fetchPrompts :: "(nat \<Rightarrow> response) \<Rightarrow> (string + prompt list) \<times> request list" where
  "fetchPrompts net =
     (case andThen (fetch net (get_req MetadataJson)) (\<lambda>(st, b).
           andThen (if \<not> ok st then throw else ret ()) (\<lambda>u.
           andThen (json b) (\<lambda>d.
           parse_index d))) []
      of
        (None, log) \<Rightarrow> (Inl ''Failed to fetch prompts. Please try again later.'', log)
      | (Some md, log) \<Rightarrow>
          (let promptsMetadata = (case md of None \<Rightarrow> [] | Some ps \<Rightarrow> ps)
           in (Inr (map (\<lambda>(i, p). fetch_content (net (length log + i)) p)
                        (enumerate 0 promptsMetadata)),
               log @ map (\<lambda>p. get_req (PromptFile (filename p))) promptsMetadata)))"

text \<open>
  \<open>Array.prototype.sort(compare)\<close> is stable; it is modelled by insertion sort, which
  puts an element before the first one that \<open>compare\<close> does not place ahead of it.
\<close>

fun insert_by :: "('a \<Rightarrow> 'a \<Rightarrow> int) \<Rightarrow> 'a \<Rightarrow> 'a list \<Rightarrow> 'a list" where
  "insert_by cmp x [] = [x]"
| "insert_by cmp x (y # ys) = (if cmp x y \<le> 0 then x # y # ys else y # insert_by cmp x ys)"

definition sort_by :: "('a \<Rightarrow> 'a \<Rightarrow> int) \<Rightarrow> 'a list \<Rightarrow> 'a list" where
  "sort_by cmp xs = foldr (insert_by cmp) xs []"

datatype sortField = SortTitle | SortUpdatedAt

datatype sortOrder = Asc | Desc

text \<open>The three \<open>filter\<close> callbacks of \<open>filteredPrompts\<close>.\<close>

definition matches_search :: "string \<Rightarrow> prompt \<Rightarrow> bool" where
  "matches_search searchQuery p =
     (searchQuery = [] \<or>
      includes_str (toLowerCase (title (meta p))) (toLowerCase searchQuery) \<or>
      includes_str (toLowerCase (description (meta p))) (toLowerCase searchQuery) \<or>
      list_ex (\<lambda>tag. includes_str (toLowerCase tag) (toLowerCase searchQuery)) (tags (meta p)))"

definition matches_tags :: "string list \<Rightarrow> prompt \<Rightarrow> bool" where
  "matches_tags selectedTags p =
     (length selectedTags = 0 \<or> list_ex (\<lambda>tag. tag \<in> set (tags (meta p))) selectedTags)"

definition matches_providers :: "provider list \<Rightarrow> prompt \<Rightarrow> bool" where
  "matches_providers selectedProviders p =
     (length selectedProviders = 0 \<or> provider (meta p) \<in> set selectedProviders)"

text \<open>
  The comparator of the \<open>sort\<close> call. \<open>localeCompare\<close> is the host's
  \<open>String.prototype.localeCompare\<close>, a parameter of the model.
\<close>

definition compare_prompts ::
  "(string \<Rightarrow> string \<Rightarrow> int) \<Rightarrow> sortField \<Rightarrow> sortOrder \<Rightarrow> prompt \<Rightarrow> prompt \<Rightarrow> int" where
  "compare_prompts localeCompare sortField sortOrder a b =
     (let comparison =
            (case sortField of
               SortTitle \<Rightarrow> localeCompare (title (meta a)) (title (meta b))
             | SortUpdatedAt \<Rightarrow> int (updatedAt (meta a)) - int (updatedAt (meta b)))
      in if sortOrder = Asc then comparison else - comparison)"

definition filteredPrompts ::
  "(string \<Rightarrow> string \<Rightarrow> int) \<Rightarrow> prompt list \<Rightarrow> string \<Rightarrow> string list \<Rightarrow> provider list
     \<Rightarrow> sortField \<Rightarrow> sortOrder \<Rightarrow> prompt list" where
  "filteredPrompts localeCompare prompts searchQuery selectedTags selectedProviders
       sortField sortOrder =
     sort_by (compare_prompts localeCompare sortField sortOrder)
       (filter (matches_providers selectedProviders)
         (filter (matches_tags selectedTags)
           (filter (matches_search searchQuery) prompts)))"

section \<open>Notions the statements use\<close>

text \<open>
  When the read of a content file fails: the conditions under which the \<open>try\<close> block of
  the mapped function in \<open>fetchPrompts\<close> throws (\<open>fetch\<close> rejects, the status is
  outside 200..299, \<open>json()\<close> rejects, or \<open>atob(contentData.content)\<close> throws).
\<close>

definition content_read_fails :: "response \<Rightarrow> bool" where
  "content_read_fails r =
     (case r of
        NetworkError \<Rightarrow> True
      | Http st b \<Rightarrow>
          \<not> ok st \<or> (case b of None \<Rightarrow> True | Some d \<Rightarrow> b_content d = None))"


text \<open>Strings put together again with a separator between them: what \<open>split\<close> takes
  apart.\<close>

fun join_with :: "char \<Rightarrow> string list \<Rightarrow> string" where
  "join_with sep [] = []"
| "join_with sep [s] = s"
| "join_with sep (s # t # ts) = s @ sep # join_with sep (t # ts)"

text \<open>The maximal non-empty runs of characters of \<open>[a-z0-9]\<close> in a string, from left
  to right.\<close>

function alnum_runs :: "string \<Rightarrow> string list" where
  "alnum_runs s =
     (case dropWhile (\<lambda>c. \<not> is_alnum c) s of
        [] \<Rightarrow> []
      | c # cs \<Rightarrow> takeWhile is_alnum (c # cs) # alnum_runs (dropWhile is_alnum (c # cs)))"
  by pat_completeness auto
termination
proof (relation "measure length")
  show "wf (measure length)" by simp
next
  fix s :: string and c cs
  assume d: "dropWhile (\<lambda>c. \<not> is_alnum c) s = c # cs"
  then have "is_alnum c"
    using hd_dropWhile [of "\<lambda>c. \<not> is_alnum c" s] by simp
  then have "length (dropWhile is_alnum (c # cs)) \<le> length cs"
    by (simp add: length_dropWhile_le)
  moreover have "length (c # cs) \<le> length s"
    using length_dropWhile_le [of "\<lambda>c. \<not> is_alnum c" s] d by simp
  ultimately show "(dropWhile is_alnum (c # cs), s) \<in> measure length"
    by simp
qed

declare alnum_runs.simps [simp del]

text \<open>The dash \<open>replace_runs\<close> leaves in front of the first run and behind the last
  one, which \<open>strip_dashes\<close> then removes.\<close>

definition lead_dash :: "string \<Rightarrow> string" where
  "lead_dash s = (if s \<noteq> [] \<and> \<not> is_alnum (hd s) then ''-'' else [])"

definition trail_dash :: "string \<Rightarrow> string" where
  "trail_dash s = (if alnum_runs s \<noteq> [] \<and> \<not> is_alnum (last s) then ''-'' else [])"

text \<open>
  What \<open>Array.prototype.sort\<close> asks of its comparator: swapping the arguments flips
  the sign, and \<open>\<le> 0\<close> is transitive.
\<close>

definition consistent_comparator :: "('a \<Rightarrow> 'a \<Rightarrow> int) \<Rightarrow> bool" where
  "consistent_comparator cmp =
     ((\<forall>a b. sgn (cmp b a) = - sgn (cmp a b)) \<and>
      (\<forall>a b c. cmp a b \<le> 0 \<and> cmp b c \<le> 0 \<longrightarrow> cmp a c \<le> 0))"

section \<open>Example inputs\<close>

definition ex_a :: prompt_metadata where
  "ex_a = \<lparr> id_str = ''101'', title = ''Alpha'', description = ''first'',
            tags = [''x''], provider = openai, model = ''gpt-4'',
            filename = ''alpha-100.md'', createdAt = 102,
            updatedAt = 103 \<rparr>"

definition ex_b :: prompt_metadata where
  "ex_b = \<lparr> id_str = ''201'', title = ''Beta'', description = ''second'',
            tags = [''y''], provider = anthropic, model = ''claude-2'',
            filename = ''beta-200.md'', createdAt = 202,
            updatedAt = 203 \<rparr>"

definition ex_prompt_a :: prompt where
  "ex_prompt_a = \<lparr> meta = ex_a, content = Some ''body of alpha'' \<rparr>"

definition ex_prompt_b :: prompt where
  "ex_prompt_b = \<lparr> meta = ex_b, content = Some ''body of beta'' \<rparr>"

definition ex_form :: form where
  "ex_form = \<lparr> f_title = ''My Prompt!!'', f_description = ''a description'',
               f_prompt = ''the body'', f_tags = ''x, y'', f_provider = openai,
               f_model = ''gpt-4'' \<rparr>"

definition ex_clock :: clock4 where
  "ex_clock = \<lparr> t_file = 700, t_id = 701,
                t_created = 702, t_updated = 703 \<rparr>"

text \<open>The store's replies: a file with its token, and a reply without \<open>content\<close> and
  \<open>sha\<close> such as \<open>{"message": "Not Found"}\<close>.\<close>

definition index_body :: "prompt_metadata list \<Rightarrow> string \<Rightarrow> body" where
  "index_body ps tok =
     \<lparr> b_content = Some ''(index)'', b_metadata = Some (Some ps), b_sha = Some tok \<rparr>"

definition file_body :: "string \<Rightarrow> string \<Rightarrow> body" where
  "file_body txt tok = \<lparr> b_content = Some txt, b_metadata = None, b_sha = Some tok \<rparr>"

definition message_body :: body where
  "message_body = \<lparr> b_content = None, b_metadata = None, b_sha = None \<rparr>"

text \<open>The index is read, its write is answered 409 Conflict, later requests succeed.\<close>

definition conflict_net :: "nat \<Rightarrow> response" where
  "conflict_net k =
     (if k = 0 then Http 200 (Some (index_body [ex_a] ''idx-1''))
      else if k = 1 then Http 409 (Some message_body)
      else Http 201 (Some message_body))"

text \<open>A repository without \<open>metadata.json\<close>: every read is answered 404.\<close>

definition absent_net :: "nat \<Rightarrow> response" where
  "absent_net k = Http 404 (Some message_body)"

text \<open>A store holding the index \<open>[ex_a, ex_b]\<close>; every later request is answered 200
  with a file.\<close>

definition store_net :: "nat \<Rightarrow> response" where
  "store_net k =
     (if k = 0 then Http 200 (Some (index_body [ex_a, ex_b] ''idx-1''))
      else Http 200 (Some (file_body ''stored body'' ''file-1'')))"

text \<open>Two edits of \<open>ex_prompt_a\<close>, one keeping and one changing the title, and a
  record whose id is not in the index.\<close>

definition ex_edit :: form where
  "ex_edit = \<lparr> f_title = ''Alpha'', f_description = ''first, revised'',
               f_prompt = ''new body'', f_tags = ''x, z'', f_provider = google,
               f_model = ''gemini-pro'' \<rparr>"

definition ex_rename :: form where
  "ex_rename = \<lparr> f_title = ''Alpha Two'', f_description = ''first, revised'',
                 f_prompt = ''new body'', f_tags = ''x, z'', f_provider = google,
                 f_model = ''gemini-pro'' \<rparr>"


text \<open>The index \<open>[ex_a, ex_b]\<close>; the content file of \<open>ex_a\<close> is answered 404, the one of
  \<open>ex_b\<close> is served.\<close>

definition partial_net :: "nat \<Rightarrow> response" where
  "partial_net k =
     (if k = 0 then Http 200 (Some (index_body [ex_a, ex_b] ''idx-1''))
      else if k = 1 then Http 404 (Some message_body)
      else Http 200 (Some (file_body ''body of beta'' ''file-2'')))"

text \<open>The record a Create of \<open>ex_form\<close> builds on an empty index when its clock reads
  11 for the filename.\<close>

definition ex_first :: prompt_metadata where
  "ex_first = newPrompt ex_form (ex_clock \<lparr> t_file := 11 \<rparr>) []"

text \<open>
  A host's \<open>localeCompare\<close> with default options, in the manner of the default
  collation: strings are compared letter by letter whatever the case, and two
  strings that differ in case only are ordered lower case first
  (\<open>'a'.localeCompare('A')\<close> is negative).
\<close>

fun lex_compare :: "(char \<Rightarrow> nat) \<Rightarrow> string \<Rightarrow> string \<Rightarrow> int" where
  "lex_compare key [] [] = 0"
| "lex_compare key [] (y # ys) = - 1"
| "lex_compare key (x # xs) [] = 1"
| "lex_compare key (x # xs) (y # ys) =
     (if key x < key y then - 1 else if key y < key x then 1 else lex_compare key xs ys)"

definition variant_compare :: "string \<Rightarrow> string \<Rightarrow> int" where
  "variant_compare a b =
     (if lex_compare of_char (toLowerCase a) (toLowerCase b) \<noteq> 0
      then lex_compare of_char (toLowerCase a) (toLowerCase b)
      else lex_compare (\<lambda>c. 255 - of_char c) a b)"

text \<open>A record titled \<open>alpha\<close>, last updated when \<open>ex_b\<close> was.\<close>

definition ex_alpha_lower :: prompt where
  "ex_alpha_lower = \<lparr> meta = ex_b \<lparr> title := ''alpha'' \<rparr>, content = None \<rparr>"





section \<open>Failure signalling\<close>

lemmas io_defs =
  run_def andThen_def fetch_def json_def parse_index_def prompts_of_def ret_def throw_def

text \<open>A rejected \<open>fetch\<close> does end the operation: when the write of the index fails in
  transit, the content file is not written and the message is set (for a form within
  the strings of the model, as in \<open>create_run\<close> below).\<close>

lemma create_aborts_on_network_error:
  assumes "net 0 = Http st0 (Some d)" and "st0 \<noteq> 404" and "b_content d = Some txt"
    and "b_metadata d = Some (Some ps)" and "net 1 = NetworkError"
  shows "handleSubmit_create net clk f =
     (Error ''Failed to create prompt. Please try again.'',
      [get_req MetadataJson,
       \<lparr> verb = PUT, path = MetadataJson,
         message = Some (''Add prompt: '' @ f_title f),
         payload = Some (IndexDoc (ps @ [newPrompt f clk ps])),
         sha = truthy (b_sha d) \<rparr>])"
  using assms by (simp add: handleSubmit_create_def io_defs Let_def)

text \<open>The status of the reply to a write is never read: Create and Delete behave the
  same whatever status and body the store gives to a PUT or DELETE.\<close>

lemma create_ignores_write_status:
  assumes "net 0 = net' 0" and "net 1 = Http s1 b1" and "net' 1 = Http s1' b1'"
    and "net 2 = Http s2 b2" and "net' 2 = Http s2' b2'"
  shows "handleSubmit_create net clk f = handleSubmit_create net' clk f"
  using assms
  by (simp add: handleSubmit_create_def io_defs Let_def eval_nat_numeral
      split: response.splits option.splits prod.splits)

lemma delete_ignores_write_status:
  assumes "net 0 = net' 0" and "net 1 = Http s1 b1" and "net' 1 = Http s1' b1'"
    and "net 2 = net' 2" and "net 3 = Http s3 b3" and "net' 3 = Http s3' b3'"
  shows "handleDelete net prompt = handleDelete net' prompt"
  using assms
  by (simp add: handleDelete_def io_defs eval_nat_numeral
      split: response.splits option.splits prod.splits)

text \<open>
  C1 (a request that fails aborts the rest of the operation): Create, Update and
  Delete at \<open>conflict_net\<close>. The write of \<open>metadata.json\<close> is answered 409 Conflict; the
  handler never looks at that reply, goes on with the requests for the content file
  and ends in \<open>Done\<close>, with no message for the user.
\<close>

theorem C1_writes_continue_after_conflict:
  "handleSubmit_create conflict_net ex_clock ex_form =
     (Done,
      [get_req MetadataJson,
       \<lparr> verb = PUT, path = MetadataJson,
         message = Some ''Add prompt: My Prompt!!'',
         payload = Some (IndexDoc [ex_a, newPrompt ex_form ex_clock [ex_a]]),
         sha = Some ''idx-1'' \<rparr>,
       \<lparr> verb = PUT, path = PromptFile ''my-prompt-700.md'',
         message = Some ''Add prompt: My Prompt!!'',
         payload = Some (Body ''the body''),
         sha = None \<rparr>]) \<and>
   handleSubmit_update conflict_net 800 801 ex_prompt_a ex_edit =
     (Done,
      [get_req MetadataJson,
       \<lparr> verb = PUT, path = MetadataJson,
         message = Some ''Update prompt: Alpha'',
         payload = Some (IndexDoc [updated_record ex_a ex_edit ''alpha-100.md'' 801]),
         sha = Some ''idx-1'' \<rparr>,
       get_req (PromptFile ''alpha-100.md''),
       \<lparr> verb = PUT, path = PromptFile ''alpha-100.md'',
         message = Some ''Update prompt: Alpha'',
         payload = Some (Body ''new body''),
         sha = None \<rparr>]) \<and>
   handleDelete conflict_net ex_prompt_a =
     (Done,
      [get_req MetadataJson,
       \<lparr> verb = PUT, path = MetadataJson,
         message = Some ''Delete prompt: Alpha'',
         payload = Some (IndexDoc []),
         sha = Some ''idx-1'' \<rparr>,
       get_req (PromptFile ''alpha-100.md''),
       \<lparr> verb = DELETE, path = PromptFile ''alpha-100.md'',
         message = Some ''Delete prompt: Alpha'',
         payload = None,
         sha = None \<rparr>])"
  by code_simp

text \<open>
  C2 (an absent index is an empty collection): Fetch-all at \<open>absent_net\<close>. The read of
  \<open>metadata.json\<close> is answered 404; \<open>fetchPrompts\<close> throws on every status outside
  200..299, so the outcome is the error message and no collection is set.
\<close>

theorem C2_fetch_absent_index_is_error:
  "fetchPrompts absent_net =
     (Inl ''Failed to fetch prompts. Please try again later.'', [get_req MetadataJson])"
  by code_simp

section \<open>Delete\<close>

lemma findIndex_Some:
  "findIndex P xs = Some i \<Longrightarrow> i < length xs \<and> P (xs ! i) \<and> (\<forall>j<i. \<not> P (xs ! j))"
proof (induction xs arbitrary: i)
  case Nil
  then show ?case by simp
next
  case (Cons x xs)
  show ?case
  proof (cases "P x")
    case True
    with Cons.prems show ?thesis by simp
  next
    case False
    with Cons.prems obtain k where k: "findIndex P xs = Some k" "i = Suc k"
      by auto
    from Cons.IH [OF k(1)] False k(2) show ?thesis
      by (auto simp: less_Suc_eq_0_disj)
  qed
qed






section \<open>Update\<close>

lemma update_index_writes:
  assumes "net 0 = Http st0 (Some d)" and "b_content d = Some txt"
    and "b_metadata d = Some (Some ps)"
    and "findIndex (\<lambda>p. id_str p = id_str (meta prompt)) ps = Some i"
  shows "\<forall>r \<in> set (snd (handleSubmit_update net tn tu prompt f)).
            verb r = PUT \<and> path r = MetadataJson \<longrightarrow>
            payload r = Some (IndexDoc
              (ps[i := updated_record (ps ! i) f (update_filename prompt f tn ps) tu]))"
  using assms
  by (auto simp add: handleSubmit_update_def io_defs get_req_def Let_def
      split: response.splits option.splits if_splits prod.splits)

lemma update_done_wrote_index:
  assumes "net 0 = Http st0 (Some d)" and "b_content d = Some txt"
    and "b_metadata d = Some (Some ps)"
    and "findIndex (\<lambda>p. id_str p = id_str (meta prompt)) ps = Some i"
    and "fst (handleSubmit_update net tn tu prompt f) = Done"
  shows "\<exists>r \<in> set (snd (handleSubmit_update net tn tu prompt f)).
            verb r = PUT \<and> path r = MetadataJson"
  using assms
  by (auto simp add: handleSubmit_update_def io_defs get_req_def Let_def
      split: response.splits option.splits if_splits prod.splits)

text \<open>
  C4: let the index read hold the records \<open>ps\<close>, with \<open>i\<close> the first position whose id is
  the id of the record being edited. Every write of \<open>metadata.json\<close> that Update sends
  carries \<open>ps\<close> with position \<open>i\<close> replaced, and an Update that ends in \<open>Done\<close> has sent
  one. The list written has the length of \<open>ps\<close> and the same record at every other
  position; at position \<open>i\<close> the id and \<open>createdAt\<close> are those of the stored record,
  \<open>updatedAt\<close> is the clock reading, and title, description, tags, provider, model and
  filename are the submitted ones.
\<close>

theorem C4_update_in_place:
  assumes "net 0 = Http st0 (Some d)" and "b_content d = Some txt"
    and "b_metadata d = Some (Some ps)"
    and "findIndex (\<lambda>p. id_str p = id_str (meta prompt)) ps = Some i"
  shows "i < length ps \<and> id_str (ps ! i) = id_str (meta prompt) \<and>
    (\<forall>r \<in> set (snd (handleSubmit_update net tn tu prompt f)).
        verb r = PUT \<and> path r = MetadataJson \<longrightarrow>
        payload r = Some (IndexDoc
          (ps[i := updated_record (ps ! i) f (update_filename prompt f tn ps) tu]))) \<and>
    (fst (handleSubmit_update net tn tu prompt f) = Done \<longrightarrow>
       (\<exists>r \<in> set (snd (handleSubmit_update net tn tu prompt f)).
          verb r = PUT \<and> path r = MetadataJson)) \<and>
    (let ps' = ps[i := updated_record (ps ! i) f (update_filename prompt f tn ps) tu]
     in length ps' = length ps \<and>
        (\<forall>j < length ps. j \<noteq> i \<longrightarrow> ps' ! j = ps ! j) \<and>
        id_str (ps' ! i) = id_str (ps ! i) \<and>
        createdAt (ps' ! i) = createdAt (ps ! i) \<and>
        updatedAt (ps' ! i) = tu \<and>
        title (ps' ! i) = f_title f \<and>
        description (ps' ! i) = f_description f \<and>
        tags (ps' ! i) = map trim (split_comma (f_tags f)) \<and>
        provider (ps' ! i) = f_provider f \<and>
        model (ps' ! i) = f_model f \<and>
        filename (ps' ! i) = update_filename prompt f tn ps)"
proof -
  have i: "i < length ps" and idi: "id_str (ps ! i) = id_str (meta prompt)"
    using findIndex_Some [OF assms(4)] by simp_all
  have w: "\<forall>r \<in> set (snd (handleSubmit_update net tn tu prompt f)).
        verb r = PUT \<and> path r = MetadataJson \<longrightarrow>
        payload r = Some (IndexDoc
          (ps[i := updated_record (ps ! i) f (update_filename prompt f tn ps) tu]))"
    using assms by (rule update_index_writes)
  have dn: "fst (handleSubmit_update net tn tu prompt f) = Done \<longrightarrow>
       (\<exists>r \<in> set (snd (handleSubmit_update net tn tu prompt f)).
          verb r = PUT \<and> path r = MetadataJson)"
    using assms by (blast intro: update_done_wrote_index)
  have frame: "let ps' = ps[i := updated_record (ps ! i) f (update_filename prompt f tn ps) tu]
     in length ps' = length ps \<and>
        (\<forall>j < length ps. j \<noteq> i \<longrightarrow> ps' ! j = ps ! j) \<and>
        id_str (ps' ! i) = id_str (ps ! i) \<and>
        createdAt (ps' ! i) = createdAt (ps ! i) \<and>
        updatedAt (ps' ! i) = tu \<and>
        title (ps' ! i) = f_title f \<and>
        description (ps' ! i) = f_description f \<and>
        tags (ps' ! i) = map trim (split_comma (f_tags f)) \<and>
        provider (ps' ! i) = f_provider f \<and>
        model (ps' ! i) = f_model f \<and>
        filename (ps' ! i) = update_filename prompt f tn ps"
    using i by (simp add: Let_def updated_record_def)
  from i idi w dn frame show ?thesis by blast
qed

theorem C4_update_in_place_witness:
  "handleSubmit_update store_net 800 801 ex_prompt_a ex_rename =
     (Done,
      [get_req MetadataJson,
       get_req (PromptFile ''alpha-100.md''),
       \<lparr> verb = DELETE, path = PromptFile ''alpha-100.md'',
         message = Some ''Delete old prompt file: Alpha'',
         payload = None, sha = Some ''file-1'' \<rparr>,
       \<lparr> verb = PUT, path = MetadataJson,
         message = Some ''Update prompt: Alpha Two'',
         payload = Some (IndexDoc
           [\<lparr> id_str = ''101'', title = ''Alpha Two'', description = ''first, revised'',
              tags = [''x'', ''z''], provider = google, model = ''gemini-pro'',
              filename = ''alpha-two-800.md'', createdAt = 102, updatedAt = 801 \<rparr>,
            ex_b]),
         sha = Some ''idx-1'' \<rparr>,
       \<lparr> verb = PUT, path = PromptFile ''alpha-two-800.md'',
         message = Some ''Update prompt: Alpha Two'',
         payload = Some (Body ''new body''), sha = None \<rparr>])
   \<and> (\<exists>r \<in> set (snd (handleSubmit_update store_net 800 801 ex_prompt_a ex_rename)).
         verb r = PUT \<and> path r = MetadataJson \<and>
         payload r = Some (IndexDoc
           ([ex_a, ex_b][0 := updated_record ([ex_a, ex_b] ! 0) ex_rename
               (update_filename ex_prompt_a ex_rename 800 [ex_a, ex_b]) 801])))"
proof -
  let ?d = "index_body [ex_a, ex_b] ''idx-1''"
  have h0: "store_net 0 = Http 200 (Some ?d)"
    by (simp add: store_net_def)
  have c: "b_content ?d = Some ''(index)''" and m: "b_metadata ?d = Some (Some [ex_a, ex_b])"
    by (simp_all add: index_body_def)
  have found: "findIndex (\<lambda>p. id_str p = id_str (meta ex_prompt_a)) [ex_a, ex_b] = Some 0"
    by (simp add: ex_prompt_a_def)
  have run: "handleSubmit_update store_net 800 801 ex_prompt_a ex_rename =
     (Done,
      [get_req MetadataJson,
       get_req (PromptFile ''alpha-100.md''),
       \<lparr> verb = DELETE, path = PromptFile ''alpha-100.md'',
         message = Some ''Delete old prompt file: Alpha'',
         payload = None, sha = Some ''file-1'' \<rparr>,
       \<lparr> verb = PUT, path = MetadataJson,
         message = Some ''Update prompt: Alpha Two'',
         payload = Some (IndexDoc
           [\<lparr> id_str = ''101'', title = ''Alpha Two'', description = ''first, revised'',
              tags = [''x'', ''z''], provider = google, model = ''gemini-pro'',
              filename = ''alpha-two-800.md'', createdAt = 102, updatedAt = 801 \<rparr>,
            ex_b]),
         sha = Some ''idx-1'' \<rparr>,
       \<lparr> verb = PUT, path = PromptFile ''alpha-two-800.md'',
         message = Some ''Update prompt: Alpha Two'',
         payload = Some (Body ''new body''), sha = None \<rparr>])"
    by code_simp
  then have dn: "fst (handleSubmit_update store_net 800 801 ex_prompt_a ex_rename) = Done"
    by simp
  from C4_update_in_place [of store_net 200 ?d "''(index)''" "[ex_a, ex_b]" ex_prompt_a 0
      800 801 ex_rename, OF h0 c m found] dn
  have "\<exists>r \<in> set (snd (handleSubmit_update store_net 800 801 ex_prompt_a ex_rename)).
         verb r = PUT \<and> path r = MetadataJson \<and>
         payload r = Some (IndexDoc
           ([ex_a, ex_b][0 := updated_record ([ex_a, ex_b] ! 0) ex_rename
               (update_filename ex_prompt_a ex_rename 800 [ex_a, ex_b]) 801]))"
    by blast
  with run show ?thesis by blast
qed





section \<open>Fetch-all\<close>

lemma fetch_content_meta: "meta (fetch_content r p) = p"
  by (simp add: fetch_content_def split: response.splits option.splits)

lemma fetch_content_fails:
  "content_read_fails r \<Longrightarrow> content (fetch_content r p) = None"
  by (auto simp add: fetch_content_def content_read_fails_def split: response.splits option.splits)

lemma fetch_content_reads:
  "\<not> content_read_fails r \<Longrightarrow>
     \<exists>st d txt. r = Http st (Some d) \<and> ok st \<and> b_content d = Some txt \<and>
        content (fetch_content r p) = Some txt"
  by (auto simp add: fetch_content_def content_read_fails_def split: response.splits option.splits)

text \<open>
  C6: when the index is read, \<open>fetchPrompts\<close> sets a collection with one entry per
  record of the index, in the order of the index, and has sent one read per content
  file. The entry of a record whose content read fails is the record's metadata with
  no content; the entry of every other record carries the body its read returned.
  No failed content read changes another entry or the outcome.
\<close>

theorem C6_fetch_degrades_per_record:
  assumes "net 0 = Http st (Some d)" and "ok st" and "b_content d = Some txt"
    and "b_metadata d = Some (Some ps)"
  shows "\<exists>rs. fetchPrompts net =
            (Inr rs, get_req MetadataJson # map (\<lambda>p. get_req (PromptFile (filename p))) ps) \<and>
          length rs = length ps \<and>
          (\<forall>i < length ps.
              meta (rs ! i) = ps ! i \<and>
              (content_read_fails (net (Suc i)) \<longrightarrow> content (rs ! i) = None) \<and>
              (\<not> content_read_fails (net (Suc i)) \<longrightarrow>
                 (\<exists>st' d' body. net (Suc i) = Http st' (Some d') \<and> ok st' \<and>
                     b_content d' = Some body \<and> content (rs ! i) = Some body)))"
proof -
  let ?rs = "map (\<lambda>(i, p). fetch_content (net (Suc i)) p) (enumerate 0 ps)"
  have run: "fetchPrompts net =
      (Inr ?rs, get_req MetadataJson # map (\<lambda>p. get_req (PromptFile (filename p))) ps)"
    using assms by (simp add: fetchPrompts_def io_defs)
  have len: "length ?rs = length ps"
    by simp
  have nth: "?rs ! i = fetch_content (net (Suc i)) (ps ! i)" if "i < length ps" for i
    using that by (simp add: nth_enumerate_eq)
  have each: "\<forall>i < length ps.
              meta (?rs ! i) = ps ! i \<and>
              (content_read_fails (net (Suc i)) \<longrightarrow> content (?rs ! i) = None) \<and>
              (\<not> content_read_fails (net (Suc i)) \<longrightarrow>
                 (\<exists>st' d' body. net (Suc i) = Http st' (Some d') \<and> ok st' \<and>
                     b_content d' = Some body \<and> content (?rs ! i) = Some body))"
    using nth fetch_content_meta fetch_content_fails fetch_content_reads by metis
  from run len each show ?thesis by blast
qed

theorem C6_fetch_degrades_per_record_witness:
  "\<exists>rs. fst (fetchPrompts partial_net) = Inr rs \<and> length rs = 2 \<and>
      rs ! 0 = \<lparr> meta = ex_a, content = None \<rparr> \<and>
      rs ! 1 = \<lparr> meta = ex_b, content = Some ''body of beta'' \<rparr>"
proof -
  let ?d = "index_body [ex_a, ex_b] ''idx-1''"
  have h0: "partial_net 0 = Http 200 (Some ?d)"
    by (simp add: partial_net_def)
  have k: "ok 200"
    by (simp add: ok_def)
  have c: "b_content ?d = Some ''(index)''" and m: "b_metadata ?d = Some (Some [ex_a, ex_b])"
    by (simp_all add: index_body_def)
  have f1: "content_read_fails (partial_net (Suc 0))"
    by (simp add: partial_net_def content_read_fails_def ok_def)
  have f2: "\<not> content_read_fails (partial_net (Suc 1))"
    and r2: "partial_net (Suc 1) = Http 200 (Some (file_body ''body of beta'' ''file-2''))"
    by (simp_all add: partial_net_def content_read_fails_def ok_def file_body_def)
  from C6_fetch_degrades_per_record [of partial_net 200 ?d "''(index)''" "[ex_a, ex_b]",
      OF h0 k c m]
  obtain rs where rs: "fetchPrompts partial_net =
            (Inr rs, get_req MetadataJson # map (\<lambda>p. get_req (PromptFile (filename p))) [ex_a, ex_b])"
    and len: "length rs = length [ex_a, ex_b]"
    and each: "\<forall>i < length [ex_a, ex_b].
              meta (rs ! i) = [ex_a, ex_b] ! i \<and>
              (content_read_fails (partial_net (Suc i)) \<longrightarrow> content (rs ! i) = None) \<and>
              (\<not> content_read_fails (partial_net (Suc i)) \<longrightarrow>
                 (\<exists>st' d' body. partial_net (Suc i) = Http st' (Some d') \<and> ok st' \<and>
                     b_content d' = Some body \<and> content (rs ! i) = Some body))"
    by blast
  from each f1 have a: "meta (rs ! 0) = ex_a" "content (rs ! 0) = None"
    by auto
  from each have "meta (rs ! 1) = [ex_a, ex_b] ! 1 \<and>
      (\<not> content_read_fails (partial_net (Suc 1)) \<longrightarrow>
                 (\<exists>st' d' body. partial_net (Suc 1) = Http st' (Some d') \<and> ok st' \<and>
                     b_content d' = Some body \<and> content (rs ! 1) = Some body))"
    by simp
  with f2 r2 have b: "meta (rs ! 1) = ex_b" "content (rs ! 1) = Some ''body of beta''"
    by (auto simp add: file_body_def)
  from a b have "rs ! 0 = \<lparr> meta = ex_a, content = None \<rparr>"
    and "rs ! 1 = \<lparr> meta = ex_b, content = Some ''body of beta'' \<rparr>"
    by simp_all
  with rs len show ?thesis by simp
qed

section \<open>The collection view\<close>

lemma includes_str_sublist: "includes_str s t \<longleftrightarrow> sublist t s"
  by (induction s) (simp_all add: sublist_Cons_right)

lemma mset_insert_by: "mset (insert_by cmp x xs) = add_mset x (mset xs)"
  by (induction xs) simp_all

lemma mset_sort_by: "mset (sort_by cmp xs) = mset xs"
  by (induction xs) (simp_all add: sort_by_def mset_insert_by)

lemma matches_search_iff:
  "matches_search q p \<longleftrightarrow>
     (q = [] \<or> (\<exists>s \<in> {title (meta p), description (meta p)} \<union> set (tags (meta p)).
                   sublist (toLowerCase q) (toLowerCase s)))"
  by (auto simp add: matches_search_def includes_str_sublist list_ex_iff)

lemma matches_tags_iff:
  "matches_tags sel p \<longleftrightarrow> (set (tags (meta p)) \<inter> set sel \<noteq> {} \<or> set sel = {})"
  by (auto simp add: matches_tags_def list_ex_iff)

lemma matches_providers_iff:
  "matches_providers sel p \<longleftrightarrow> (provider (meta p) \<in> set sel \<or> set sel = {})"
  by (auto simp add: matches_providers_def)

text \<open>
  C8: the list \<open>filteredPrompts\<close> shows holds exactly the records of the collection,
  each as often as it occurs there, that pass the three filters together: the search
  text is empty or, lower-cased, a substring of the lower-cased title, description or
  one of the tags; the record's tags meet the selected tags or none is selected; the
  record's provider is selected or none is.
\<close>

theorem C8_collection_view:
  "mset (filteredPrompts localeCompare prompts q selTags selProviders sortField sortOrder) =
     filter_mset
       (\<lambda>p. (q = [] \<or>
               (\<exists>s \<in> {title (meta p), description (meta p)} \<union> set (tags (meta p)).
                   sublist (toLowerCase q) (toLowerCase s))) \<and>
            (set (tags (meta p)) \<inter> set selTags \<noteq> {} \<or> set selTags = {}) \<and>
            (provider (meta p) \<in> set selProviders \<or> set selProviders = {}))
       (mset prompts)"
proof -
  have "mset (filteredPrompts localeCompare prompts q selTags selProviders sortField sortOrder) =
      filter_mset (\<lambda>p. matches_search q p \<and> matches_tags selTags p \<and>
                        matches_providers selProviders p) (mset prompts)"
    by (simp add: filteredPrompts_def mset_sort_by conj_commute conj_left_commute)
  then show ?thesis
    by (simp only: matches_search_iff matches_tags_iff matches_providers_iff)
qed

theorem C8_collection_view_witness:
  "mset (filteredPrompts (\<lambda>a b. 0) [ex_prompt_a, ex_prompt_b] [] [''x''] [] SortUpdatedAt Desc)
     = {#ex_prompt_a#} \<and>
   mset (filteredPrompts (\<lambda>a b. 0) [ex_prompt_a, ex_prompt_b] [] [] [] SortUpdatedAt Desc)
     = {#ex_prompt_a, ex_prompt_b#}"
  using C8_collection_view [of "\<lambda>a b. 0" "[ex_prompt_a, ex_prompt_b]" "[]" "[''x'']" "[]"
      SortUpdatedAt Desc]
    C8_collection_view [of "\<lambda>a b. 0" "[ex_prompt_a, ex_prompt_b]" "[]" "[]" "[]"
      SortUpdatedAt Desc]
  by (simp add: ex_prompt_a_def ex_prompt_b_def ex_a_def ex_b_def)

section \<open>Sorting the view\<close>

lemma consistentD_sym: "consistent_comparator cmp \<Longrightarrow> sgn (cmp b a) = - sgn (cmp a b)"
  unfolding consistent_comparator_def by blast

lemma consistentD_trans:
  "consistent_comparator cmp \<Longrightarrow> cmp a b \<le> 0 \<Longrightarrow> cmp b c \<le> 0 \<Longrightarrow> cmp a c \<le> 0"
  unfolding consistent_comparator_def by blast

lemma consistent_flip: "consistent_comparator cmp \<Longrightarrow> cmp a b > 0 \<Longrightarrow> cmp b a \<le> 0"
proof -
  assume c: "consistent_comparator cmp" and p: "cmp a b > 0"
  from consistentD_sym [OF c, of b a] p have "sgn (cmp b a) = - 1"
    by simp
  then show "cmp b a \<le> 0"
    by (simp add: sgn_if split: if_splits)
qed

lemma consistent_zero_sym: "consistent_comparator cmp \<Longrightarrow> cmp a b = 0 \<Longrightarrow> cmp b a = 0"
proof -
  assume c: "consistent_comparator cmp" and z: "cmp a b = 0"
  from consistentD_sym [OF c, of b a] z have "sgn (cmp b a) = 0"
    by simp
  then show "cmp b a = 0"
    by (simp add: sgn_if split: if_splits)
qed

lemma consistent_ge: "consistent_comparator cmp \<Longrightarrow> cmp a b \<le> 0 \<Longrightarrow> cmp b a \<ge> 0"
proof -
  assume c: "consistent_comparator cmp" and p: "cmp a b \<le> 0"
  from consistentD_sym [OF c, of b a] p have "sgn (cmp b a) \<ge> 0"
    by (simp add: sgn_if split: if_splits)
  then show "cmp b a \<ge> 0"
    by (simp add: sgn_if split: if_splits)
qed

lemma consistent_zero_class:
  assumes c: "consistent_comparator cmp" and "cmp k x = 0" and "cmp k y = 0"
  shows "cmp x y = 0"
proof -
  from c assms(2) have xk: "cmp x k = 0" by (rule consistent_zero_sym)
  from c assms(3) have yk: "cmp y k = 0" by (rule consistent_zero_sym)
  from consistentD_trans [OF c, of x k y] xk assms(3) have 1: "cmp x y \<le> 0" by simp
  from consistentD_trans [OF c, of y k x] yk assms(2) have "cmp y x \<le> 0" by simp
  with c have "cmp x y \<ge> 0" by (rule consistent_ge)
  with 1 show ?thesis by simp
qed

lemma set_insert_by: "set (insert_by cmp x xs) = insert x (set xs)"
  by (induction xs) auto

lemma sorted_insert_by:
  assumes c: "consistent_comparator cmp"
  shows "sorted_wrt (\<lambda>a b. cmp a b \<le> 0) xs \<Longrightarrow>
         sorted_wrt (\<lambda>a b. cmp a b \<le> 0) (insert_by cmp x xs)"
proof (induction xs)
  case Nil
  show ?case by simp
next
  case (Cons y ys)
  show ?case
  proof (cases "cmp x y \<le> 0")
    case True
    with Cons.prems consistentD_trans [OF c, of x y] show ?thesis
      by auto
  next
    case False
    then have "cmp y x \<le> 0"
      using consistent_flip [OF c, of x y] by simp
    with False Cons show ?thesis
      by (auto simp add: set_insert_by)
  qed
qed

lemma sorted_sort_by:
  "consistent_comparator cmp \<Longrightarrow> sorted_wrt (\<lambda>a b. cmp a b \<le> 0) (sort_by cmp xs)"
  by (induction xs) (simp_all add: sort_by_def sorted_insert_by)

lemma filter_insert_by_other:
  "\<not> P x \<Longrightarrow> filter P (insert_by cmp x xs) = filter P xs"
  by (induction xs) simp_all

lemma filter_insert_by_class:
  assumes c: "consistent_comparator cmp" and k: "cmp k x = 0"
  shows "filter (\<lambda>y. cmp k y = 0) (insert_by cmp x xs) = x # filter (\<lambda>y. cmp k y = 0) xs"
proof (induction xs)
  case Nil
  from k show ?case by simp
next
  case (Cons y ys)
  show ?case
  proof (cases "cmp x y \<le> 0")
    case True
    with k show ?thesis by simp
  next
    case False
    have "cmp k y \<noteq> 0"
    proof
      assume "cmp k y = 0"
      with c k have "cmp x y = 0" by (rule consistent_zero_class)
      with False show False by simp
    qed
    with False Cons show ?thesis by simp
  qed
qed

lemma sort_by_stable:
  assumes c: "consistent_comparator cmp"
  shows "filter (\<lambda>y. cmp k y = 0) (sort_by cmp xs) = filter (\<lambda>y. cmp k y = 0) xs"
proof (induction xs)
  case Nil
  show ?case by (simp add: sort_by_def)
next
  case (Cons x xs)
  then have ih: "filter (\<lambda>y. cmp k y = 0) (foldr (insert_by cmp) xs []) =
      filter (\<lambda>y. cmp k y = 0) xs"
    by (simp add: sort_by_def)
  show ?case
  proof (cases "cmp k x = 0")
    case True
    with filter_insert_by_class [OF c True, of "foldr (insert_by cmp) xs []"] ih
    show ?thesis by (simp add: sort_by_def)
  next
    case False
    with filter_insert_by_other [of "\<lambda>y. cmp k y = 0" x cmp "foldr (insert_by cmp) xs []"] ih
    show ?thesis by (simp add: sort_by_def)
  qed
qed

lemma consistent_key: "consistent_comparator (\<lambda>a b. f a - f b :: int)"
  by (auto simp add: consistent_comparator_def sgn_if)

lemma consistent_negate:
  assumes c: "consistent_comparator cmp"
  shows "consistent_comparator (\<lambda>a b. - cmp a b)"
proof -
  have "sgn (- cmp b a) = - sgn (- cmp a b)" for a b
    using consistentD_sym [OF c, of b a] by (simp add: sgn_minus)
  moreover have "- cmp a d \<le> 0" if "- cmp a b \<le> 0" and "- cmp b d \<le> 0" for a b d
  proof -
    from that have "cmp a b \<ge> 0" and "cmp b d \<ge> 0" by simp_all
    then have "cmp b a \<le> 0" and "cmp d b \<le> 0"
      using consistent_flip [OF c, of a b] consistent_zero_sym [OF c, of a b]
        consistent_flip [OF c, of b d] consistent_zero_sym [OF c, of b d]
      by (cases "cmp a b = 0"; cases "cmp b d = 0"; simp)+
    with consistentD_trans [OF c, of d b a] have "cmp d a \<le> 0" by simp
    with c have "cmp a d \<ge> 0" by (rule consistent_ge)
    then show ?thesis by simp
  qed
  ultimately show ?thesis
    unfolding consistent_comparator_def by blast
qed

lemma consistent_on: "consistent_comparator cmp \<Longrightarrow> consistent_comparator (\<lambda>a b. cmp (f a) (f b))"
  unfolding consistent_comparator_def by blast

lemma consistent_compare_prompts:
  assumes "sf = SortTitle \<longrightarrow> consistent_comparator lc"
  shows "consistent_comparator (compare_prompts lc sf so)"
proof (cases sf)
  case SortTitle
  with assms have c: "consistent_comparator lc" by simp
  have t: "consistent_comparator (\<lambda>a b. lc (title (meta a)) (title (meta b)))"
    using c by (rule consistent_on)
  show ?thesis
  proof (cases so)
    case Asc
    with SortTitle t show ?thesis
      by (simp add: compare_prompts_def [abs_def])
  next
    case Desc
    with SortTitle consistent_negate [OF t] show ?thesis
      by (simp add: compare_prompts_def [abs_def])
  qed
next
  case SortUpdatedAt
  have t: "consistent_comparator (\<lambda>a b. int (updatedAt (meta a)) - int (updatedAt (meta b)))"
    by (rule consistent_key)
  show ?thesis
  proof (cases so)
    case Asc
    with SortUpdatedAt t show ?thesis
      by (simp add: compare_prompts_def [abs_def])
  next
    case Desc
    with SortUpdatedAt consistent_negate [OF t] show ?thesis
      by (simp add: compare_prompts_def [abs_def])
  qed
qed


lemma lex_compare_sym: "sgn (lex_compare key b a) = - sgn (lex_compare key a b)"
  by (induction key a b rule: lex_compare.induct) auto

lemma lex_compare_trans:
  "lex_compare key a b \<le> 0 \<Longrightarrow> lex_compare key b c \<le> 0 \<Longrightarrow> lex_compare key a c \<le> 0"
proof (induction key a b arbitrary: c rule: lex_compare.induct)
  case (1 key)
  then show ?case by simp
next
  case (2 key y ys)
  then show ?case by (cases c) simp_all
next
  case (3 key x xs)
  then show ?case by simp
next
  case (4 key x xs y ys)
  show ?case
  proof (cases c)
    case Nil
    with "4.prems" show ?thesis by simp
  next
    case (Cons z zs)
    with "4.prems" "4.IH" [of zs] show ?thesis
      by (auto split: if_splits)
  qed
qed

lemma consistent_lex_compare: "consistent_comparator (lex_compare key)"
  unfolding consistent_comparator_def using lex_compare_sym lex_compare_trans by blast

lemma consistent_then:
  assumes a: "consistent_comparator f" and b: "consistent_comparator g"
  shows "consistent_comparator (\<lambda>x y. if f x y \<noteq> 0 then f x y else g x y)"
proof -
  let ?h = "\<lambda>x y. if f x y \<noteq> 0 then f x y else g x y"
  have sym: "sgn (?h y x) = - sgn (?h x y)" for x y
  proof (cases "f x y = 0")
    case True
    with a have "f y x = 0" by (rule consistent_zero_sym)
    with True consistentD_sym [OF b, of y x] show ?thesis by simp
  next
    case False
    have "f y x \<noteq> 0"
    proof
      assume "f y x = 0"
      with a have "f x y = 0" by (rule consistent_zero_sym)
      with False show False by simp
    qed
    with False consistentD_sym [OF a, of y x] show ?thesis by simp
  qed
  have trans: "?h x z \<le> 0" if xy: "?h x y \<le> 0" and yz: "?h y z \<le> 0" for x y z
  proof -
    from xy have fxy: "f x y \<le> 0" by (simp split: if_splits)
    from yz have fyz: "f y z \<le> 0" by (simp split: if_splits)
    from consistentD_trans [OF a fxy fyz] have fxz: "f x z \<le> 0" .
    show ?thesis
    proof (cases "f x z = 0")
      case False
      with fxz show ?thesis by simp
    next
      case True
      with a have fzx: "f z x = 0" by (rule consistent_zero_sym)
      from consistentD_trans [OF a, of z x y] fzx fxy have "f z y \<le> 0" by simp
      with a have "f y z \<ge> 0" by (rule consistent_ge)
      with fyz have z1: "f y z = 0" by simp
      from consistentD_trans [OF a, of y z x] fyz fzx have "f y x \<le> 0" by simp
      with a have "f x y \<ge> 0" by (rule consistent_ge)
      with fxy have z2: "f x y = 0" by simp
      from xy z2 have "g x y \<le> 0" by simp
      moreover from yz z1 have "g y z \<le> 0" by simp
      ultimately have "g x z \<le> 0" by (rule consistentD_trans [OF b])
      with True show ?thesis by simp
    qed
  qed
  from sym trans show ?thesis
    unfolding consistent_comparator_def by blast
qed

lemma consistent_variant_compare: "consistent_comparator variant_compare"
proof -
  have 1: "consistent_comparator (\<lambda>a b. lex_compare of_char (toLowerCase a) (toLowerCase b))"
    using consistent_lex_compare by (rule consistent_on)
  have 2: "consistent_comparator (lex_compare (\<lambda>c. 255 - of_char c))"
    by (rule consistent_lex_compare)
  from consistent_then [OF 1 2] show ?thesis
    by (simp add: variant_compare_def [abs_def])
qed

lemma sorted_head_max:
  "sorted_wrt R xs \<Longrightarrow> p \<in> set xs \<Longrightarrow> (\<And>x. R x x) \<Longrightarrow> R (hd xs) p"
  by (cases xs) auto

text \<open>
  C9, as the code has it. The comparator of the title sort is the host's
  \<open>localeCompare\<close> on the two titles as they are stored, negated for descending
  order; the code folds no case. The comparator of the last-updated sort is the
  difference of the two instants. When the comparator is consistent (for the title
  sort: when the host's \<open>localeCompare\<close> is), the list shown is ordered by it, and the
  records the comparator reports equal to any given record stand in the order they
  have in the filtered collection. Sorted by last-updated, descending, no record
  shown is more recent than the first one.
\<close>

theorem C9_sort:
  "compare_prompts lc SortTitle Asc a b = lc (title (meta a)) (title (meta b)) \<and>
   compare_prompts lc SortTitle Desc a b = - lc (title (meta a)) (title (meta b)) \<and>
   compare_prompts lc SortUpdatedAt Asc a b =
     int (updatedAt (meta a)) - int (updatedAt (meta b)) \<and>
   compare_prompts lc SortUpdatedAt Desc a b =
     int (updatedAt (meta b)) - int (updatedAt (meta a)) \<and>
   ((sf = SortTitle \<longrightarrow> consistent_comparator lc) \<longrightarrow>
      sorted_wrt (\<lambda>x y. compare_prompts lc sf so x y \<le> 0)
        (filteredPrompts lc prompts q selTags selProviders sf so) \<and>
      (\<forall>k. filter (\<lambda>p. compare_prompts lc sf so k p = 0)
              (filteredPrompts lc prompts q selTags selProviders sf so) =
            filter (\<lambda>p. compare_prompts lc sf so k p = 0)
              (filter (matches_providers selProviders)
                (filter (matches_tags selTags) (filter (matches_search q) prompts))))) \<and>
   (\<forall>p \<in> set (filteredPrompts lc prompts q selTags selProviders SortUpdatedAt Desc).
      updatedAt (meta p) \<le>
      updatedAt (meta (hd (filteredPrompts lc prompts q selTags selProviders SortUpdatedAt Desc))))"
proof -
  have cmp: "compare_prompts lc SortTitle Asc a b = lc (title (meta a)) (title (meta b)) \<and>
     compare_prompts lc SortTitle Desc a b = - lc (title (meta a)) (title (meta b)) \<and>
     compare_prompts lc SortUpdatedAt Asc a b =
       int (updatedAt (meta a)) - int (updatedAt (meta b)) \<and>
     compare_prompts lc SortUpdatedAt Desc a b =
       int (updatedAt (meta b)) - int (updatedAt (meta a))"
    by (simp add: compare_prompts_def)
  have ord: "sorted_wrt (\<lambda>x y. compare_prompts lc sf so x y \<le> 0)
        (filteredPrompts lc prompts q selTags selProviders sf so) \<and>
      (\<forall>k. filter (\<lambda>p. compare_prompts lc sf so k p = 0)
              (filteredPrompts lc prompts q selTags selProviders sf so) =
            filter (\<lambda>p. compare_prompts lc sf so k p = 0)
              (filter (matches_providers selProviders)
                (filter (matches_tags selTags) (filter (matches_search q) prompts))))"
    if "sf = SortTitle \<longrightarrow> consistent_comparator lc"
  proof -
    from that have c: "consistent_comparator (compare_prompts lc sf so)"
      by (rule consistent_compare_prompts)
    from sorted_sort_by [OF c] sort_by_stable [OF c] show ?thesis
      by (simp add: filteredPrompts_def)
  qed
  let ?shown = "filteredPrompts lc prompts q selTags selProviders SortUpdatedAt Desc"
  have c: "consistent_comparator (compare_prompts lc SortUpdatedAt Desc)"
    by (rule consistent_compare_prompts) simp
  have s: "sorted_wrt (\<lambda>x y. compare_prompts lc SortUpdatedAt Desc x y \<le> 0) ?shown"
    using sorted_sort_by [OF c] by (simp add: filteredPrompts_def)
  have first: "\<forall>p \<in> set ?shown. updatedAt (meta p) \<le> updatedAt (meta (hd ?shown))"
  proof
    fix p
    assume "p \<in> set ?shown"
    with s have "compare_prompts lc SortUpdatedAt Desc (hd ?shown) p \<le> 0"
      by (rule sorted_head_max [where R = "\<lambda>x y. compare_prompts lc SortUpdatedAt Desc x y \<le> 0"])
        (simp add: compare_prompts_def)
    then show "updatedAt (meta p) \<le> updatedAt (meta (hd ?shown))"
      by (simp add: compare_prompts_def)
  qed
  from cmp ord first show ?thesis by blast
qed

theorem C9_sort_witness:
  "consistent_comparator variant_compare \<and>
   filteredPrompts variant_compare [ex_prompt_b, ex_prompt_a, ex_alpha_lower] [] [] []
     SortTitle Asc = [ex_alpha_lower, ex_prompt_a, ex_prompt_b] \<and>
   sorted_wrt (\<lambda>x y. compare_prompts variant_compare SortTitle Asc x y \<le> 0)
     [ex_alpha_lower, ex_prompt_a, ex_prompt_b] \<and>
   filteredPrompts variant_compare [ex_prompt_a, ex_prompt_b, ex_alpha_lower] [] [] []
     SortUpdatedAt Desc = [ex_prompt_b, ex_alpha_lower, ex_prompt_a]"
proof -
  have r: "filteredPrompts variant_compare [ex_prompt_b, ex_prompt_a, ex_alpha_lower] [] [] []
     SortTitle Asc = [ex_alpha_lower, ex_prompt_a, ex_prompt_b]"
    by code_simp
  have u: "filteredPrompts variant_compare [ex_prompt_a, ex_prompt_b, ex_alpha_lower] [] [] []
     SortUpdatedAt Desc = [ex_prompt_b, ex_alpha_lower, ex_prompt_a]"
    by code_simp
  from C9_sort [of variant_compare ex_prompt_a ex_prompt_b SortTitle Asc
      "[ex_prompt_b, ex_prompt_a, ex_alpha_lower]" "[]" "[]" "[]"]
    consistent_variant_compare r
  have "sorted_wrt (\<lambda>x y. compare_prompts variant_compare SortTitle Asc x y \<le> 0)
     [ex_alpha_lower, ex_prompt_a, ex_prompt_b]"
    by simp
  with consistent_variant_compare r u show ?thesis by blast
qed

text \<open>
  C9 as stated fails: the title comparison is not case-insensitive. On a host whose
  \<open>localeCompare\<close> orders lower case first, the records titled \<open>Alpha\<close> and \<open>alpha\<close>,
  given in this order, are shown as \<open>alpha\<close>, \<open>Alpha\<close>: titles that are equal up to case
  do not compare equal, and their input order is not kept.
\<close>

theorem C9_counterexample:
  "toLowerCase (title (meta ex_prompt_a)) = toLowerCase (title (meta ex_alpha_lower)) \<and>
   filteredPrompts variant_compare [ex_prompt_a, ex_alpha_lower] [] [] [] SortTitle Asc =
     [ex_alpha_lower, ex_prompt_a]"
  by code_simp

section \<open>Tags of a created record\<close>

lemma join_split_comma: "join_with CHR '','' (split_comma s) = s"
proof (induction s)
  case Nil
  show ?case by simp
next
  case (Cons c cs)
  show ?case
  proof (cases "split_comma cs")
    case Nil
    with Cons show ?thesis by simp
  next
    case (Cons seg segs)
    with Cons.IH show ?thesis
      by (cases segs) auto
  qed
qed

lemma split_comma_nonempty: "split_comma s \<noteq> []"
  by (induction s) (auto split: list.splits)

lemma split_comma_no_comma: "seg \<in> set (split_comma s) \<Longrightarrow> CHR '','' \<notin> set seg"
  by (induction s arbitrary: seg) (auto split: list.splits if_splits)

lemma trim_decompose:
  "\<exists>l r. s = l @ trim s @ r \<and> (\<forall>c \<in> set l. is_space c) \<and> (\<forall>c \<in> set r. is_space c)"
proof -
  let ?l = "takeWhile is_space s"
  let ?m = "dropWhile is_space s"
  let ?r = "rev (takeWhile is_space (rev ?m))"
  have "rev ?m = takeWhile is_space (rev ?m) @ dropWhile is_space (rev ?m)"
    by simp
  then have "?m = rev (dropWhile is_space (rev ?m)) @ ?r"
    by (metis rev_append rev_rev_ident)
  then have "s = ?l @ trim s @ ?r"
    by (simp add: trim_def)
  moreover have "\<forall>c \<in> set ?l. is_space c"
    by (auto dest: set_takeWhileD)
  moreover have "\<forall>c \<in> set ?r. is_space c"
    by (auto dest: set_takeWhileD)
  ultimately show ?thesis by blast
qed

lemma trim_ends: "trim s = [] \<or> (\<not> is_space (hd (trim s)) \<and> \<not> is_space (last (trim s)))"
proof (cases "trim s = []")
  case True
  then show ?thesis by simp
next
  case False
  let ?m = "dropWhile is_space s"
  let ?k = "dropWhile is_space (rev ?m)"
  from False have k: "?k \<noteq> []"
    by (simp add: trim_def)
  then have "\<not> is_space (hd ?k)"
    by (rule hd_dropWhile)
  then have l: "\<not> is_space (last (trim s))"
    using k by (simp add: trim_def last_rev)
  have m: "?m \<noteq> []"
  proof
    assume "?m = []"
    with k show False by simp
  qed
  then have hm: "\<not> is_space (hd ?m)"
    by (rule hd_dropWhile)
  have "?m = rev ?k @ rev (takeWhile is_space (rev ?m))"
    by (metis rev_append rev_rev_ident takeWhile_dropWhile_id)
  with k have "hd ?m = hd (rev ?k)"
    by (metis hd_append2 rev_is_Nil_conv)
  with hm have "\<not> is_space (hd (trim s))"
    by (simp add: trim_def)
  with l show ?thesis by simp
qed

text \<open>
  C10: the tags Create stores are the comma-separated segments of the tags input,
  each trimmed. The segments are the pieces between the commas (joined with commas
  they give the input, and none holds a comma); trimming a segment removes white
  space at its two ends and nothing else. The stored list is never empty, and for
  the empty input it is the list holding the empty string.
\<close>

theorem C10_create_tags:
  "tags (newPrompt f clk ps) = map trim (split_comma (f_tags f)) \<and>
   join_with CHR '','' (split_comma (f_tags f)) = f_tags f \<and>
   (\<forall>seg \<in> set (split_comma (f_tags f)). CHR '','' \<notin> set seg) \<and>
   (\<forall>seg. \<exists>l r. seg = l @ trim seg @ r \<and>
        (\<forall>c \<in> set l. is_space c) \<and> (\<forall>c \<in> set r. is_space c) \<and>
        (trim seg = [] \<or> (\<not> is_space (hd (trim seg)) \<and> \<not> is_space (last (trim seg))))) \<and>
   tags (newPrompt f clk ps) \<noteq> [] \<and>
   tags (newPrompt (f \<lparr> f_tags := [] \<rparr>) clk ps) = [[]]"
proof -
  have 1: "tags (newPrompt f clk ps) = map trim (split_comma (f_tags f))"
    by (simp add: newPrompt_def)
  have 4: "\<forall>seg. \<exists>l r. seg = l @ trim seg @ r \<and>
        (\<forall>c \<in> set l. is_space c) \<and> (\<forall>c \<in> set r. is_space c) \<and>
        (trim seg = [] \<or> (\<not> is_space (hd (trim seg)) \<and> \<not> is_space (last (trim seg))))"
    using trim_decompose trim_ends by blast
  have 5: "tags (newPrompt f clk ps) \<noteq> []"
    by (simp add: newPrompt_def split_comma_nonempty)
  have 6: "tags (newPrompt (f \<lparr> f_tags := [] \<rparr>) clk ps) = [[]]"
    by (simp add: newPrompt_def trim_def)
  from 1 4 5 6 join_split_comma split_comma_no_comma show ?thesis
    by blast
qed

theorem C10_create_tags_witness:
  "tags (newPrompt (ex_form \<lparr> f_tags := '' a, b ,,c d '' \<rparr>) ex_clock [ex_a]) =
     [''a'', ''b'', '''', ''c d''] \<and>
   tags (newPrompt (ex_form \<lparr> f_tags := '''' \<rparr>) ex_clock [ex_a]) = ['''']"
proof -
  have s: "map trim (split_comma '' a, b ,,c d '') = [''a'', ''b'', '''', ''c d'']"
    by code_simp
  from C10_create_tags [of "ex_form \<lparr> f_tags := '' a, b ,,c d '' \<rparr>" ex_clock "[ex_a]"]
    C10_create_tags [of ex_form ex_clock "[ex_a]"] s
  show ?thesis by simp
qed

section \<open>The filename of a created record\<close>

subsection \<open>The base name\<close>

lemma runs_Nil [simp]: "alnum_runs [] = []"
  by (simp add: alnum_runs.simps)

lemma runs_skip [simp]: "\<not> is_alnum c \<Longrightarrow> alnum_runs (c # cs) = alnum_runs cs"
  by (simp add: alnum_runs.simps [of "c # cs"] alnum_runs.simps [of cs])

lemma runs_take:
  "is_alnum c \<Longrightarrow>
     alnum_runs (c # cs) = (c # takeWhile is_alnum cs) # alnum_runs (dropWhile is_alnum cs)"
  by (simp add: alnum_runs.simps [of "c # cs"])

lemma runs_dropWhile: "alnum_runs (dropWhile (\<lambda>c. \<not> is_alnum c) s) = alnum_runs s"
  by (induction s) simp_all

lemma runs_empty_iff: "alnum_runs s = [] \<longleftrightarrow> (\<forall>c \<in> set s. \<not> is_alnum c)"
proof (induction s)
  case Nil
  show ?case by simp
next
  case (Cons a s)
  show ?case
  proof (cases "is_alnum a")
    case True
    then show ?thesis by (simp add: runs_take)
  next
    case False
    with Cons show ?thesis by simp
  qed
qed

lemma runs_alnum: "w \<in> set (alnum_runs s) \<Longrightarrow> w \<noteq> [] \<and> (\<forall>c \<in> set w. is_alnum c)"
proof (induction s arbitrary: w rule: length_induct)
  case (1 s)
  show ?case
  proof (cases s)
    case Nil
    with "1.prems" show ?thesis by simp
  next
    case (Cons c cs)
    show ?thesis
    proof (cases "is_alnum c")
      case False
      with Cons "1.prems" have "w \<in> set (alnum_runs cs)" by simp
      moreover from Cons have "length cs < length s" by simp
      ultimately show ?thesis using "1.IH" by blast
    next
      case True
      with Cons "1.prems" have "w = c # takeWhile is_alnum cs \<or>
          w \<in> set (alnum_runs (dropWhile is_alnum cs))"
        by (simp add: runs_take)
      then show ?thesis
      proof
        assume "w = c # takeWhile is_alnum cs"
        with True show ?thesis by (auto dest: set_takeWhileD)
      next
        assume w: "w \<in> set (alnum_runs (dropWhile is_alnum cs))"
        have "length (dropWhile is_alnum cs) < length s"
          using Cons length_dropWhile_le [of is_alnum cs] by simp
        with "1.IH" w show ?thesis by blast
      qed
    qed
  qed
qed

lemma dash_not_alnum [simp]: "\<not> is_alnum CHR ''-''"
  by (simp add: is_alnum_def)

lemma join_Cons_Cons: "ws \<noteq> [] \<Longrightarrow> join_with sep ((c # hd ws) # tl ws) = c # join_with sep ws"
  by (cases ws; cases "tl ws") auto

lemma join_ends:
  assumes "ws \<noteq> []" and "\<forall>w \<in> set ws. w \<noteq> [] \<and> (\<forall>c \<in> set w. is_alnum c)"
  shows "join_with sep ws \<noteq> [] \<and> is_alnum (hd (join_with sep ws)) \<and>
         is_alnum (last (join_with sep ws))"
  using assms
proof (induction sep ws rule: join_with.induct)
  case (1 sep)
  then show ?case by simp
next
  case (2 sep s)
  then show ?case by (cases s) auto
next
  case (3 sep s t ts)
  then show ?case by (cases s) auto
qed

lemma replace_runs_shape:
  "replace_runs s = lead_dash s @ join_with CHR ''-'' (alnum_runs s) @ trail_dash s"
proof (induction s rule: replace_runs.induct)
  case 1
  show ?case by (simp add: lead_dash_def trail_dash_def)
next
  case (2 c cs)
  show ?case
  proof (cases "is_alnum c")
    case True
    with "2.IH" have ih: "replace_runs cs =
        lead_dash cs @ join_with CHR ''-'' (alnum_runs cs) @ trail_dash cs"
      by simp
    show ?thesis
    proof (cases cs)
      case Nil
      with True show ?thesis
        by (simp add: lead_dash_def trail_dash_def runs_take)
    next
      case (Cons d ds)
      show ?thesis
      proof (cases "is_alnum d")
        case d: True
        with Cons have r: "alnum_runs cs = (d # takeWhile is_alnum ds) # alnum_runs (dropWhile is_alnum ds)"
          by (simp add: runs_take)
        with True Cons d have "alnum_runs (c # cs) = (c # hd (alnum_runs cs)) # tl (alnum_runs cs)"
          by (simp add: runs_take)
        moreover from r have "alnum_runs cs \<noteq> []" by simp
        ultimately have j: "join_with CHR ''-'' (alnum_runs (c # cs)) =
            c # join_with CHR ''-'' (alnum_runs cs)"
          by (simp add: join_Cons_Cons)
        from True Cons d r have "trail_dash (c # cs) = trail_dash cs"
          by (simp add: trail_dash_def runs_take)
        with True Cons d ih j show ?thesis
          by (simp add: lead_dash_def)
      next
        case d: False
        with True Cons have r: "alnum_runs (c # cs) = [c] # alnum_runs cs"
          by (simp add: runs_take)
        from Cons d have l: "lead_dash cs = ''-''"
          by (simp add: lead_dash_def)
        show ?thesis
        proof (cases "alnum_runs cs")
          case Nil
          then have "\<forall>x \<in> set cs. \<not> is_alnum x"
            by (simp add: runs_empty_iff)
          moreover from Cons have "last cs \<in> set cs"
            by simp
          ultimately have "\<not> is_alnum (last cs)"
            by blast
          with r Cons have "trail_dash (c # cs) = ''-''"
            by (simp add: trail_dash_def)
          moreover from Nil have "trail_dash cs = []"
            by (simp add: trail_dash_def)
          ultimately show ?thesis
            using True ih l r Nil by (simp add: lead_dash_def)
        next
          case (Cons w ws)
          with r \<open>cs = d # ds\<close> have "trail_dash (c # cs) = trail_dash cs"
            by (simp add: trail_dash_def)
          with True ih l r Cons show ?thesis
            by (simp add: lead_dash_def)
        qed
      qed
    qed
  next
    case False
    let ?s = "dropWhile (\<lambda>d. \<not> is_alnum d) cs"
    from False "2.IH" have ih: "replace_runs ?s =
        lead_dash ?s @ join_with CHR ''-'' (alnum_runs ?s) @ trail_dash ?s"
      by simp
    have l: "lead_dash ?s = []"
      using hd_dropWhile [of "\<lambda>d. \<not> is_alnum d" cs] by (auto simp add: lead_dash_def)
    have r: "alnum_runs (c # cs) = alnum_runs ?s"
      using False by (simp add: runs_dropWhile)
    have t: "trail_dash (c # cs) = trail_dash ?s"
    proof (cases "alnum_runs ?s = []")
      case True
      with r show ?thesis by (simp add: trail_dash_def)
    next
      case n: False
      have ne: "?s \<noteq> []"
      proof
        assume "?s = []"
        with n show False by simp
      qed
      have "cs = takeWhile (\<lambda>d. \<not> is_alnum d) cs @ ?s"
        by simp
      with ne have "last cs = last ?s"
        by (metis last_appendR)
      moreover have "cs \<noteq> []"
      proof
        assume "cs = []"
        with ne show False by simp
      qed
      ultimately show ?thesis
        using r by (simp add: trail_dash_def)
    qed
    from False ih l r t show ?thesis
      by (simp add: lead_dash_def)
  qed
qed

lemma strip_dashes_core:
  assumes "j = [] \<or> (hd j \<noteq> CHR ''-'' \<and> last j \<noteq> CHR ''-'')"
    and "l = [] \<or> l = ''-''" and "t = [] \<or> t = ''-''"
  shows "strip_dashes (l @ j @ t) = j"
proof (cases "j = []")
  case True
  from assms(2) assms(3) have "strip_dashes (l @ t) = []"
    by (elim disjE) (simp_all add: strip_dashes_def)
  with True show ?thesis by simp
next
  case False
  with assms(1) have h: "hd j \<noteq> CHR ''-''" and e: "last j \<noteq> CHR ''-''"
    by simp_all
  from False obtain x xs where j: "j = x # xs"
    by (cases j) auto
  with h have x: "x \<noteq> CHR ''-''"
    by simp
  from assms(2) have 1: "dropWhile (\<lambda>c. c = CHR ''-'') (l @ j @ t) = j @ t"
    by (elim disjE) (simp_all add: j x)
  from False obtain y ys where r: "rev j = y # ys"
    by (cases "rev j") auto
  then have "last j = y"
    by (metis last_rev list.sel(1) rev_rev_ident hd_rev)
  with e have y: "y \<noteq> CHR ''-''"
    by simp
  from assms(3) have "dropWhile (\<lambda>c. c = CHR ''-'') (rev (j @ t)) = rev j"
    by (elim disjE) (simp_all add: r y)
  with 1 show ?thesis
    by (simp add: strip_dashes_def)
qed

lemma baseFilename_runs:
  "baseFilename ttl = join_with CHR ''-'' (alnum_runs (toLowerCase ttl))"
proof -
  let ?s = "toLowerCase ttl"
  let ?j = "join_with CHR ''-'' (alnum_runs ?s)"
  have "?j = [] \<or> (hd ?j \<noteq> CHR ''-'' \<and> last ?j \<noteq> CHR ''-'')"
  proof (cases "alnum_runs ?s = []")
    case True
    then show ?thesis by simp
  next
    case False
    with join_ends [of "alnum_runs ?s" "CHR ''-''"] runs_alnum [of _ ?s]
    have "is_alnum (hd ?j) \<and> is_alnum (last ?j)"
      by blast
    then show ?thesis
      by auto
  qed
  moreover have "lead_dash ?s = [] \<or> lead_dash ?s = ''-''"
    by (simp add: lead_dash_def)
  moreover have "trail_dash ?s = [] \<or> trail_dash ?s = ''-''"
    by (simp add: trail_dash_def)
  ultimately have "strip_dashes (lead_dash ?s @ ?j @ trail_dash ?s) = ?j"
    by (rule strip_dashes_core)
  then show ?thesis
    by (simp add: baseFilename_def replace_runs_shape)
qed

subsection \<open>Decimal digits\<close>

lemma showNat_nonempty: "showNat n \<noteq> []"
  by (subst showNat.simps) simp

lemma length_showNat_mono: "a \<le> b \<Longrightarrow> length (showNat a) \<le> length (showNat b)"
proof (induction b arbitrary: a rule: showNat.induct)
  case (1 b)
  show ?case
  proof (cases "b < 10")
    case True
    with "1.prems" have "a < 10" by simp
    with True show ?thesis
      by (simp add: showNat.simps [of a] showNat.simps [of b])
  next
    case False
    show ?thesis
    proof (cases "a < 10")
      case True
      have "length (showNat b) \<ge> 1"
        using showNat_nonempty [of b] by (cases "showNat b") simp_all
      with True show ?thesis
        by (simp add: showNat.simps [of a])
    next
      case a: False
      from "1.prems" have "a div 10 \<le> b div 10"
        by (rule div_le_mono)
      with "1.IH" False have "length (showNat (a div 10)) \<le> length (showNat (b div 10))"
        by simp
      with a False show ?thesis
        by (simp add: showNat.simps [of a] showNat.simps [of b])
    qed
  qed
qed

lemma digit_char_inj: "a < 10 \<Longrightarrow> b < 10 \<Longrightarrow> digit_char a = digit_char b \<Longrightarrow> a = b"
proof -
  assume a: "a < 10" and b: "b < 10" and e: "digit_char a = digit_char b"
  have d: "distinct ''0123456789''"
    by simp
  have "length ''0123456789'' = 10"
    by simp
  with a b e d show "a = b"
    unfolding digit_char_def by (simp only: nth_eq_iff_index_eq)
qed

lemma showNat_inj: "showNat a = showNat b \<Longrightarrow> a = b"
proof (induction a arbitrary: b rule: showNat.induct)
  case (1 a)
  show ?case
  proof (cases "a < 10")
    case True
    show ?thesis
    proof (cases "b < 10")
      case b: True
      with True "1.prems" have "digit_char a = digit_char b"
        by (simp add: showNat.simps [of a] showNat.simps [of b])
      with True b show ?thesis
        by (rule digit_char_inj)
    next
      case False
      with True "1.prems" have "showNat (b div 10) = []"
        by (simp add: showNat.simps [of a] showNat.simps [of b] Cons_eq_append_conv)
      with showNat_nonempty show ?thesis by blast
    qed
  next
    case False
    show ?thesis
    proof (cases "b < 10")
      case True
      with False "1.prems" have "showNat (a div 10) = []"
        by (simp add: showNat.simps [of a] showNat.simps [of b] append_eq_Cons_conv)
      with showNat_nonempty show ?thesis by blast
    next
      case b: False
      with False "1.prems" have e: "showNat (a div 10) = showNat (b div 10)"
        and d: "digit_char (a mod 10) = digit_char (b mod 10)"
        by (simp_all add: showNat.simps [of a] showNat.simps [of b])
      from "1.IH" False e have "a div 10 = b div 10"
        by simp
      moreover from d have "a mod 10 = b mod 10"
        by (rule digit_char_inj [rotated 2]) simp_all
      ultimately show ?thesis
        by (metis div_mult_mod_eq)
    qed
  qed
qed

lemma length_suffix_of: "length (suffix_of c) \<le> length (showNat (Suc c))"
proof (cases "c = 0")
  case True
  then show ?thesis by (simp add: suffix_of_def)
next
  case False
  with length_showNat_mono [of c "Suc c"] show ?thesis
    by (simp add: suffix_of_def)
qed

lemma suffix_of_neq: "suffix_of c \<noteq> showNat (Suc c)"
proof (cases "c = 0")
  case True
  with showNat_nonempty [of "Suc 0"] show ?thesis
    by (simp add: suffix_of_def)
next
  case False
  with showNat_inj [of c "Suc c"] show ?thesis
    by (auto simp add: suffix_of_def)
qed

lemma stamp_distinct:
  assumes "t1 \<le> t2"
  shows "showNat t1 @ suffix_of c \<noteq> showNat t2 @ showNat (Suc c)"
proof
  assume e: "showNat t1 @ suffix_of c = showNat t2 @ showNat (Suc c)"
  from assms have le: "length (showNat t1) \<le> length (showNat t2)"
    by (rule length_showNat_mono)
  show False
  proof (cases "length (showNat t1) = length (showNat t2)")
    case True
    with e have "suffix_of c = showNat (Suc c)"
      by simp
    with suffix_of_neq show False by blast
  next
    case False
    with le have "length (showNat t1) < length (showNat t2)"
      by simp
    with length_suffix_of [of c]
    have "length (showNat t1 @ suffix_of c) < length (showNat t2 @ showNat (Suc c))"
      by simp
    with e show False by simp
  qed
qed

lemma make_filename_distinct:
  "t1 \<le> t2 \<Longrightarrow> make_filename base t2 (Suc c) \<noteq> make_filename base t1 c"
  using stamp_distinct [of t1 t2 c] by (auto simp add: make_filename_def suffix_of_def)

lemma existingPrompts_snoc:
  "prefix (base @ ''-'') (filename r) \<Longrightarrow>
     length (existingPrompts base (ps @ [r])) = Suc (length (existingPrompts base ps))"
  by (simp add: existingPrompts_def)

lemma create_filename_prefix:
  "prefix (baseFilename ttl @ ''-'') (create_filename ttl ps now)"
  by (simp add: create_filename_def make_filename_def Let_def)

lemma second_create_distinct:
  assumes "baseFilename (f_title f2) = baseFilename (f_title f1)"
    and "t_file clk1 \<le> t_file clk2"
  shows "filename (newPrompt f2 clk2 (ps @ [newPrompt f1 clk1 ps])) \<noteq>
         filename (newPrompt f1 clk1 ps)"
proof -
  let ?base = "baseFilename (f_title f1)"
  let ?r = "newPrompt f1 clk1 ps"
  have "prefix (?base @ ''-'') (filename ?r)"
    by (simp add: newPrompt_def create_filename_prefix)
  then have "length (existingPrompts ?base (ps @ [?r])) = Suc (length (existingPrompts ?base ps))"
    by (rule existingPrompts_snoc)
  with assms make_filename_distinct [of "t_file clk1" "t_file clk2" ?base
      "length (existingPrompts ?base ps)"]
  show ?thesis
    by (simp add: newPrompt_def create_filename_def Let_def)
qed

subsection \<open>Create\<close>

text \<open>What Create sends when the store answers: the index with the new record
  appended, then the content file at the derived filename.\<close>

lemma create_run:
  assumes "net 0 = Http st0 (Some d)" and "st0 \<noteq> 404" and "b_content d = Some txt"
    and "b_metadata d = Some (Some ps)"
    and "net 1 = Http st1 b1" and "net 2 = Http st2 b2"
  shows "handleSubmit_create net clk f =
     (Done,
      [get_req MetadataJson,
       \<lparr> verb = PUT, path = MetadataJson,
         message = Some (''Add prompt: '' @ f_title f),
         payload = Some (IndexDoc (ps @ [newPrompt f clk ps])),
         sha = truthy (b_sha d) \<rparr>,
       \<lparr> verb = PUT, path = PromptFile (filename (newPrompt f clk ps)),
         message = Some (''Add prompt: '' @ f_title f),
         payload = Some (Body (f_prompt f)),
         sha = None \<rparr>])"
  using assms by (simp add: handleSubmit_create_def io_defs Let_def eval_nat_numeral)

text \<open>
  C3, as the code has it. The base name is the lower-cased title's runs of \<open>[a-z0-9]\<close>
  joined by single dashes (so every run of other characters has become one dash, and
  none stands at either end). The filename is the base name, a dash, the clock
  reading in decimal, then the number of records of the index whose filename begins
  with the base name and a dash, when there is one, and \<open>.md\<close>: the count stands
  behind the timestamp. When a second Create of a title with the same base name
  reads the index the first one wrote, at a clock reading not earlier than the
  first's, its filename differs from the first's.
\<close>

theorem C3_create_filename:
  "baseFilename (f_title f) = join_with CHR ''-'' (alnum_runs (toLowerCase (f_title f))) \<and>
   (let base = baseFilename (f_title f);
        n = length (filter (\<lambda>p. prefix (base @ ''-'') (filename p)) ps)
    in filename (newPrompt f clk ps) =
         base @ ''-'' @ showNat (t_file clk) @ (if n = 0 then [] else showNat n) @ ''.md'') \<and>
   (baseFilename (f_title f2) = baseFilename (f_title f) \<and> t_file clk \<le> t_file clk2 \<longrightarrow>
      filename (newPrompt f2 clk2 (ps @ [newPrompt f clk ps])) \<noteq> filename (newPrompt f clk ps))"
proof -
  have shape: "let base = baseFilename (f_title f);
        n = length (filter (\<lambda>p. prefix (base @ ''-'') (filename p)) ps)
    in filename (newPrompt f clk ps) =
         base @ ''-'' @ showNat (t_file clk) @ (if n = 0 then [] else showNat n) @ ''.md''"
    by (simp add: newPrompt_def create_filename_def make_filename_def suffix_of_def
        existingPrompts_def Let_def)
  have "filename (newPrompt f2 clk2 (ps @ [newPrompt f clk ps])) \<noteq> filename (newPrompt f clk ps)"
    if "baseFilename (f_title f2) = baseFilename (f_title f)" and "t_file clk \<le> t_file clk2"
    using that by (rule second_create_distinct)
  with shape baseFilename_runs [of "f_title f"] show ?thesis by blast
qed

theorem C3_create_filename_witness:
  "baseFilename ''my prompt'' = baseFilename ''My Prompt!!'' \<and>
   t_file (ex_clock \<lparr> t_file := 11 \<rparr>) \<le> t_file (ex_clock \<lparr> t_file := 12 \<rparr>) \<and>
   filename ex_first = ''my-prompt-11.md'' \<and>
   filename (newPrompt (ex_form \<lparr> f_title := ''my prompt'' \<rparr>) (ex_clock \<lparr> t_file := 12 \<rparr>)
      ([] @ [ex_first])) = ''my-prompt-121.md'' \<and>
   filename (newPrompt (ex_form \<lparr> f_title := ''my prompt'' \<rparr>) (ex_clock \<lparr> t_file := 12 \<rparr>)
      ([] @ [ex_first])) \<noteq> filename ex_first"
proof -
  have r: "baseFilename ''my prompt'' = baseFilename ''My Prompt!!''"
    by code_simp
  have t: "t_file (ex_clock \<lparr> t_file := 11 \<rparr>) \<le> t_file (ex_clock \<lparr> t_file := 12 \<rparr>)"
    by simp
  have a: "filename ex_first = ''my-prompt-11.md''"
    by code_simp
  have b: "filename (newPrompt (ex_form \<lparr> f_title := ''my prompt'' \<rparr>)
      (ex_clock \<lparr> t_file := 12 \<rparr>) ([] @ [ex_first])) = ''my-prompt-121.md''"
    by code_simp
  from C3_create_filename [of ex_form "[]" "ex_clock \<lparr> t_file := 11 \<rparr>"
      "ex_form \<lparr> f_title := ''my prompt'' \<rparr>" "ex_clock \<lparr> t_file := 12 \<rparr>",
      THEN conjunct2, THEN conjunct2] r t
  have "filename (newPrompt (ex_form \<lparr> f_title := ''my prompt'' \<rparr>)
      (ex_clock \<lparr> t_file := 12 \<rparr>) ([] @ [ex_first])) \<noteq> filename ex_first"
    by (simp add: ex_first_def ex_form_def)
  with r t a b show ?thesis by blast
qed

text \<open>
  C3 as stated fails. With one matching record and the clock reading 7 the filename
  is \<open>my-prompt-71.md\<close>: the count 1 follows the timestamp 7, it does not precede it.
  And the digits run together: a Create of \<open>My Prompt!!\<close> at clock reading 11 and a
  later Create of \<open>my prompt\<close> that reads the index the first one wrote, at a clock
  that has been set back to 1, both derive \<open>my-prompt-11.md\<close>.
\<close>

theorem C3_counterexample:
  "create_filename ''my prompt'' [ex_a \<lparr> filename := ''my-prompt-5.md'' \<rparr>] 7
     = ''my-prompt-71.md'' \<and>
   filename ex_first = ''my-prompt-11.md'' \<and>
   filename (newPrompt (ex_form \<lparr> f_title := ''my prompt'' \<rparr>) (ex_clock \<lparr> t_file := 1 \<rparr>)
      [ex_first]) = ''my-prompt-11.md'' \<and>
   filename (newPrompt (ex_form \<lparr> f_title := ''my prompt'' \<rparr>) (ex_clock \<lparr> t_file := 1 \<rparr>)
      [ex_first]) = filename ex_first"
  by code_simp

end
